theory Spec2Isabelle
  imports Complex_Main "HOL-Library.Monad_Syntax"
begin

section \<open>Strings of the web client\<close>

text \<open>
  A string is a list of code units; the model covers the code units below 256 (Latin-1),
  one \<open>char\<close> each. The classes below are the ECMAScript ones restricted to that range:
  \<open>\s\<close> and \<open>trim\<close> share one set of white space (TAB, LF, VT, FF, CR, SP, NBSP), and
  the line terminators that \<open>.\<close> refuses are LF and CR.
\<close>

definition is_space :: "char \<Rightarrow> bool" where
  "is_space c =
     (c = CHR 0x09 \<or> c = CHR 0x0A \<or> c = CHR 0x0B \<or> c = CHR 0x0C \<or> c = CHR 0x0D
      \<or> c = CHR 0x20 \<or> c = CHR 0xA0)"

definition non_space :: "char \<Rightarrow> bool" where
  "non_space c = (\<not> is_space c)"

definition is_line_terminator :: "char \<Rightarrow> bool" where
  "is_line_terminator c = (c = CHR 0x0A \<or> c = CHR 0x0D)"

definition dot :: "char \<Rightarrow> bool" where
  "dot c = (\<not> is_line_terminator c)"

definition not_rbracket :: "char \<Rightarrow> bool" where
  "not_rbracket c = (c \<noteq> CHR '']'')"

text \<open>\<open>String.prototype.trim\<close>: white space removed at both ends.\<close>

definition trim :: "string \<Rightarrow> string" where
  "trim s = rev (dropWhile is_space (rev (dropWhile is_space s)))"

text \<open>
  \<open>String.prototype.toLowerCase\<close> on Latin-1: the letters A to Z and the accented
  capitals 0xC0 to 0xDE (without the multiplication sign 0xD7) move up by 32.
\<close>

definition toLowerChar :: "char \<Rightarrow> char" where
  "toLowerChar c =
     (let n = (of_char c :: nat)
      in if (65 \<le> n \<and> n \<le> 90) \<or> (192 \<le> n \<and> n \<le> 222 \<and> n \<noteq> 215)
         then char_of (n + 32) else c)"

definition toLowerCase :: "string \<Rightarrow> string" where
  "toLowerCase s = map toLowerChar s"

definition startsWith :: "string \<Rightarrow> string \<Rightarrow> bool" where
  "startsWith s p = (take (length p) s = p)"

definition substring :: "nat \<Rightarrow> string \<Rightarrow> string" where
  "substring n s = drop n s"

text \<open>\<open>text.split('\n')\<close>: the pieces between line feeds; never an empty array.\<close>

fun split_nl :: "string \<Rightarrow> string list" where
  "split_nl [] = [[]]"
| "split_nl (c # cs) =
     (if c = CHR 0x0A then [] # split_nl cs
      else (case split_nl cs of [] \<Rightarrow> [[c]] | l # ls \<Rightarrow> (c # l) # ls))"

section \<open>The entry pattern of the log viewer\<close>

text \<open>
  \<open>line.match(/^(\S+)\s+(\S+)\s+\[([^\]]+)\]\s+(.*)$/)\<close> is a backtracking match
  anchored at both ends. Each piece of the pattern is a function from the remaining
  input to the list of its possible matches, in the order in which the matcher tries
  them; a greedy quantifier tries the longest run first. The pattern is the sequence of
  its pieces in the list monad, and the match is the first result.
\<close>

fun plus_greedy :: "(char \<Rightarrow> bool) \<Rightarrow> string \<Rightarrow> (string \<times> string) list" where
  "plus_greedy P [] = []"
| "plus_greedy P (c # cs) =
     (if P c then map (\<lambda>(a, r). (c # a, r)) (plus_greedy P cs) @ [([c], cs)] else [])"

definition star_greedy :: "(char \<Rightarrow> bool) \<Rightarrow> string \<Rightarrow> (string \<times> string) list" where
  "star_greedy P s = plus_greedy P s @ [([], s)]"

definition lit :: "char \<Rightarrow> string \<Rightarrow> string list" where
  "lit c s = (case s of [] \<Rightarrow> [] | d # r \<Rightarrow> if d = c then [r] else [])"

definition at_end :: "string \<Rightarrow> unit list" where
  "at_end s = (if s = [] then [()] else [])"

definition entry_regex :: "string \<Rightarrow> (string \<times> string \<times> string \<times> string) list" where
  "entry_regex line = do {
     (ts, r1) \<leftarrow> plus_greedy non_space line;
     (w1, r2) \<leftarrow> plus_greedy is_space r1;
     (lvl, r3) \<leftarrow> plus_greedy non_space r2;
     (w2, r4) \<leftarrow> plus_greedy is_space r3;
     r5 \<leftarrow> lit CHR ''['' r4;
     (mdl, r6) \<leftarrow> plus_greedy not_rbracket r5;
     r7 \<leftarrow> lit CHR '']'' r6;
     (w3, r8) \<leftarrow> plus_greedy is_space r7;
     (msg, r9) \<leftarrow> star_greedy dot r8;
     _ \<leftarrow> at_end r9;
     [(ts, lvl, mdl, msg)]
   }"

definition entry_match :: "string \<Rightarrow> (string \<times> string \<times> string \<times> string) option" where
  "entry_match line = (case entry_regex line of [] \<Rightarrow> None | m # _ \<Rightarrow> Some m)"

section \<open>parseLogs\<close>

record LogEntry =
  timestamp :: string
  level :: string
  module :: string
  message :: string
  isClient :: bool

text \<open>
  One turn of the loop over the lines. The state is the array \<open>logs\<close> and the entry
  under construction \<open>currentLog\<close> (\<open>None\<close> for \<open>null\<close>). \<open>currentLog\<close> is pushed
  only when it is replaced or when the loop has ended, so the entry that a continuation
  line extends is never one that \<open>logs\<close> already holds.
\<close>

definition new_entry :: "string \<times> string \<times> string \<times> string \<Rightarrow> LogEntry" where
  "new_entry m =
     (case m of (ts, lvl, mdl, msg) \<Rightarrow>
        (let isC = startsWith mdl ''CLIENT:''
         in \<lparr>timestamp = ts, level = toLowerCase (trim lvl),
             module = (if isC then substring 7 mdl else mdl),
             message = msg, isClient = isC\<rparr>))"

definition unknown_entry :: "string \<Rightarrow> LogEntry" where
  "unknown_entry line =
     \<lparr>timestamp = [], level = ''log'', module = ''unknown'', message = line,
      isClient = False\<rparr>"

definition push_current :: "LogEntry list \<Rightarrow> LogEntry option \<Rightarrow> LogEntry list" where
  "push_current logs currentLog =
     (case currentLog of None \<Rightarrow> logs | Some cur \<Rightarrow> logs @ [cur])"

fun parse_line :: "LogEntry list \<times> LogEntry option \<Rightarrow> string \<Rightarrow> LogEntry list \<times> LogEntry option" where
  "parse_line (logs, currentLog) line =
     (if trim line = [] then (logs, currentLog)
      else (case entry_match line of
              Some m \<Rightarrow> (push_current logs currentLog, Some (new_entry m))
            | None \<Rightarrow>
                (case currentLog of
                   Some cur \<Rightarrow> (logs, Some (cur\<lparr>message := message cur @ CHR 0x0A # line\<rparr>))
                 | None \<Rightarrow> (logs @ [unknown_entry line], None))))"

text \<open>After the loop: \<open>if (currentLog) logs.push(currentLog)\<close>.\<close>

definition push_last :: "LogEntry list \<times> LogEntry option \<Rightarrow> LogEntry list" where
  "push_last st = (case st of (logs, currentLog) \<Rightarrow> push_current logs currentLog)"

definition parseLines :: "string list \<Rightarrow> LogEntry list" where
  "parseLines ls = push_last (foldl parse_line ([], None) ls)"

text \<open>\<open>parseLogs\<close> assigns its result to \<open>this.logs\<close>; the model returns that array.\<close>

definition parseLogs :: "string \<Rightarrow> LogEntry list" where
  "parseLogs text = parseLines (split_nl text)"

text \<open>
  Two notions for stating what the loop does with a run of lines: a line that does not
  start an entry, and the text that a run of such lines adds to the message of the
  entry under construction (blank lines are skipped by the loop).
\<close>

definition no_entry :: "string \<Rightarrow> bool" where
  "no_entry l = (entry_match l = None)"

definition continuation :: "string list \<Rightarrow> string" where
  "continuation cs = concat (map (\<lambda>l. CHR 0x0A # l) (filter (\<lambda>l. trim l \<noteq> []) cs))"

section \<open>Values, objects and object spread\<close>

text \<open>
  A \<open>number\<close> is an IEEE double: not-a-number, an infinity, or a finite value, each
  finite double being the real it denotes (the two zeros are one value here).
  \<open>Math.max\<close> and \<open>Math.min\<close> return not-a-number as soon as an argument is one.
\<close>

datatype number = NaN | NegInf | Fin real | PosInf

fun Math_max :: "number \<Rightarrow> number \<Rightarrow> number" where
  "Math_max NaN b = NaN"
| "Math_max a NaN = NaN"
| "Math_max PosInf b = PosInf"
| "Math_max a PosInf = PosInf"
| "Math_max NegInf b = b"
| "Math_max a NegInf = a"
| "Math_max (Fin a) (Fin b) = Fin (max a b)"

fun Math_min :: "number \<Rightarrow> number \<Rightarrow> number" where
  "Math_min NaN b = NaN"
| "Math_min a NaN = NaN"
| "Math_min NegInf b = NegInf"
| "Math_min a NegInf = NegInf"
| "Math_min PosInf b = b"
| "Math_min a PosInf = a"
| "Math_min (Fin a) (Fin b) = Fin (min a b)"

datatype jsval =
    JNull
  | JBool bool
  | JNum number
  | JStr string
  | JArr "jsval list"
  | JObj "(string \<times> jsval) list"

text \<open>
  An object under construction is a map from property names to values; a property that
  is absent reads as \<open>undefined\<close> (\<open>None\<close>).
\<close>

type_synonym obj = "string \<rightharpoonup> jsval"

text \<open>The decimal name of an array index.\<close>

fun dec :: "nat \<Rightarrow> string" where
  "dec n = (if n < 10 then [''0123456789'' ! n]
            else dec (n div 10) @ [''0123456789'' ! (n mod 10)])"

declare dec.simps [simp del]

text \<open>
  The own enumerable properties that \<open>{ ...v }\<close> copies from a value: the members of an
  object, the indexed elements of an array, the indexed characters of a string, and
  nothing from \<open>null\<close>, a boolean or a number.
\<close>

fun own_props :: "jsval \<Rightarrow> (string \<times> jsval) list" where
  "own_props (JObj kvs) = kvs"
| "own_props (JArr xs) = zip (map dec [0..<length xs]) xs"
| "own_props (JStr s) = zip (map dec [0..<length s]) (map (\<lambda>c. JStr [c]) s)"
| "own_props v = []"

text \<open>Spread into an object literal: the properties are assigned one after the other.\<close>

definition spread :: "obj \<Rightarrow> (string \<times> jsval) list \<Rightarrow> obj" where
  "spread target kvs = foldl (\<lambda>m (k, v). m(k \<mapsto> v)) target kvs"

definition obj_of :: "(string \<times> jsval) list \<Rightarrow> obj" where
  "obj_of kvs = spread Map.empty kvs"

section \<open>Terminal preferences\<close>

text \<open>
  What the module takes from outside: \<open>detectMobile()\<close>, \<open>JSON.parse\<close> (undefined
  where it throws a SyntaxError), \<open>JSON.stringify\<close>, and whether a \<open>setItem\<close> call
  succeeds (it throws when the quota is exceeded). \<open>localStorage\<close> is a map from keys to
  strings, or \<open>None\<close> when the browser denies access and every call on it throws.
\<close>

record env =
  detectMobile :: bool
  JSON_parse :: "string \<rightharpoonup> jsval"
  JSON_stringify :: "obj \<Rightarrow> string"
  setItem_succeeds :: "string \<Rightarrow> string \<Rightarrow> bool"

type_synonym storage = "(string \<rightharpoonup> string) option"

definition DEFAULT_PREFERENCES :: "env \<Rightarrow> (string \<times> jsval) list" where
  "DEFAULT_PREFERENCES e =
     [(''maxCols'', JNum (Fin 0)),
      (''fontSize'', JNum (Fin (if detectMobile e then 12 else 14))),
      (''fitHorizontally'', JBool False),
      (''theme'', JStr ''dracula'')]"

definition STORAGE_KEY_TERMINAL_PREFS :: string where
  "STORAGE_KEY_TERMINAL_PREFS = ''vibetunnel_terminal_preferences''"

text \<open>
  \<open>loadPreferences\<close>: the saved text is used when it is a non-empty string that parses;
  every exception ends in the defaults.
\<close>

definition loadPreferences :: "env \<Rightarrow> storage \<Rightarrow> obj" where
  "loadPreferences e localStorage =
     (case localStorage of
        None \<Rightarrow> obj_of (DEFAULT_PREFERENCES e)
      | Some items \<Rightarrow>
          (case items STORAGE_KEY_TERMINAL_PREFS of
             None \<Rightarrow> obj_of (DEFAULT_PREFERENCES e)
           | Some saved \<Rightarrow>
               if saved = [] then obj_of (DEFAULT_PREFERENCES e)
               else (case JSON_parse e saved of
                       None \<Rightarrow> obj_of (DEFAULT_PREFERENCES e)
                     | Some parsed \<Rightarrow>
                         spread (obj_of (DEFAULT_PREFERENCES e)) (own_props parsed))))"

text \<open>An instance of \<open>TerminalPreferencesManager\<close> has the one field \<open>preferences\<close>.\<close>

record manager =
  preferences :: obj

definition savePreferences :: "env \<Rightarrow> manager \<times> storage \<Rightarrow> manager \<times> storage" where
  "savePreferences e ms =
     (case ms of (this, localStorage) \<Rightarrow>
        (let toSave = JSON_stringify e (preferences this)
         in (this,
             (case localStorage of
                None \<Rightarrow> None
              | Some items \<Rightarrow>
                  if setItem_succeeds e STORAGE_KEY_TERMINAL_PREFS toSave
                  then Some (items(STORAGE_KEY_TERMINAL_PREFS \<mapsto> toSave))
                  else Some items))))"

definition getMaxCols :: "manager \<Rightarrow> jsval option" where
  "getMaxCols this = preferences this ''maxCols''"

definition setMaxCols :: "env \<Rightarrow> number \<Rightarrow> manager \<times> storage \<Rightarrow> manager \<times> storage" where
  "setMaxCols e maxCols ms =
     (case ms of (this, localStorage) \<Rightarrow>
        savePreferences e
          (this\<lparr>preferences := (preferences this)(''maxCols'' \<mapsto> JNum (Math_max (Fin 0) maxCols))\<rparr>,
           localStorage))"

definition getFontSize :: "manager \<Rightarrow> jsval option" where
  "getFontSize this = preferences this ''fontSize''"

definition setFontSize :: "env \<Rightarrow> number \<Rightarrow> manager \<times> storage \<Rightarrow> manager \<times> storage" where
  "setFontSize e fontSize ms =
     (case ms of (this, localStorage) \<Rightarrow>
        savePreferences e
          (this\<lparr>preferences := (preferences this)
              (''fontSize'' \<mapsto> JNum (Math_max (Fin 8) (Math_min (Fin 32) fontSize)))\<rparr>,
           localStorage))"

definition getFitHorizontally :: "manager \<Rightarrow> jsval option" where
  "getFitHorizontally this = preferences this ''fitHorizontally''"

definition setFitHorizontally :: "env \<Rightarrow> bool \<Rightarrow> manager \<times> storage \<Rightarrow> manager \<times> storage" where
  "setFitHorizontally e fitHorizontally ms =
     (case ms of (this, localStorage) \<Rightarrow>
        savePreferences e
          (this\<lparr>preferences := (preferences this)(''fitHorizontally'' \<mapsto> JBool fitHorizontally)\<rparr>,
           localStorage))"

definition getTheme :: "manager \<Rightarrow> jsval option" where
  "getTheme this = preferences this ''theme''"

definition setTheme :: "env \<Rightarrow> string \<Rightarrow> manager \<times> storage \<Rightarrow> manager \<times> storage" where
  "setTheme e theme ms =
     (case ms of (this, localStorage) \<Rightarrow>
        savePreferences e
          (this\<lparr>preferences := (preferences this)(''theme'' \<mapsto> JStr theme)\<rparr>, localStorage))"

definition resetToDefaults :: "env \<Rightarrow> manager \<times> storage \<Rightarrow> manager \<times> storage" where
  "resetToDefaults e ms =
     (case ms of (this, localStorage) \<Rightarrow>
        savePreferences e (this\<lparr>preferences := obj_of (DEFAULT_PREFERENCES e)\<rparr>, localStorage))"

subsection \<open>The singleton\<close>

text \<open>
  Instances live in a store and are known by their address, so that two references can
  be told apart or found equal. The static field \<open>instance\<close> holds an address or is
  undefined. The constructor is private: \<open>getInstance\<close> is the only place that
  allocates.
\<close>

record world =
  localStorage_of :: storage
  instance_field :: "nat option"
  store :: "manager list"

definition getInstance :: "env \<Rightarrow> world \<Rightarrow> nat \<times> world" where
  "getInstance e w =
     (case instance_field w of
        None \<Rightarrow>
          (let this = \<lparr>preferences = loadPreferences e (localStorage_of w)\<rparr>;
               a = length (store w)
           in (a, w\<lparr>instance_field := Some a, store := store w @ [this]\<rparr>))
      | Some a \<Rightarrow> (a, w))"

text \<open>
  A method call through a reference; \<open>None\<close> when the address is not one of the store
  (no reference that \<open>getInstance\<close> returned is).
\<close>

definition call :: "nat \<Rightarrow> (manager \<times> storage \<Rightarrow> manager \<times> storage) \<Rightarrow> world \<Rightarrow> world option" where
  "call a meth w =
     (if a < length (store w)
      then (case meth (store w ! a, localStorage_of w) of
              (this, ls) \<Rightarrow> Some (w\<lparr>localStorage_of := ls, store := (store w)[a := this]\<rparr>))
      else None)"

definition read :: "nat \<Rightarrow> (manager \<Rightarrow> 'a) \<Rightarrow> world \<Rightarrow> 'a option" where
  "read a getter w = (if a < length (store w) then Some (getter (store w ! a)) else None)"

text \<open>A sequence of method calls, each through some reference; it stops at a failure.\<close>

fun calls :: "(nat \<times> (manager \<times> storage \<Rightarrow> manager \<times> storage)) list \<Rightarrow> world \<Rightarrow> world option" where
  "calls [] w = Some w"
| "calls ((a, meth) # cs) w =
     (case call a meth w of None \<Rightarrow> None | Some w' \<Rightarrow> calls cs w')"

text \<open>
  The worlds that a program can reach: the static field, once set, holds the address of
  an instance of the store.
\<close>

definition wf_world :: "world \<Rightarrow> bool" where
  "wf_world w = (case instance_field w of None \<Rightarrow> True | Some a \<Rightarrow> a < length (store w))"

section \<open>The settings dialog\<close>

definition DEFAULT_APP_PREFERENCES :: "(string \<times> jsval) list" where
  "DEFAULT_APP_PREFERENCES =
     [(''useDirectKeyboard'', JBool True), (''useBinaryMode'', JBool False)]"

definition STORAGE_KEY :: string where
  "STORAGE_KEY = ''vibetunnel_app_preferences''"

text \<open>
  \<open>loadAppPreferences\<close>, as far as the field \<open>appPreferences\<close> goes: the result is the
  new value of the field. The field is assigned only when a non-empty stored text
  parses; an exception leaves it as it was. The rest of the method reads the server
  configuration and starts the repository discovery, and assigns other fields only.
\<close>

definition loadAppPreferences :: "env \<Rightarrow> storage \<Rightarrow> obj \<Rightarrow> obj" where
  "loadAppPreferences e localStorage appPreferences =
     (case localStorage of
        None \<Rightarrow> appPreferences
      | Some items \<Rightarrow>
          (case items STORAGE_KEY of
             None \<Rightarrow> appPreferences
           | Some stored \<Rightarrow>
               if stored = [] then appPreferences
               else (case JSON_parse e stored of
                       None \<Rightarrow> appPreferences
                     | Some parsed \<Rightarrow>
                         spread (obj_of DEFAULT_APP_PREFERENCES) (own_props parsed))))"

subsection \<open>Notification preferences\<close>

text \<open>
  The notification preferences are an object of boolean properties. The state of the
  dialog that matters here is that object, the flag \<open>isLoading\<close>, the arguments of
  the calls to \<open>pushNotificationService.savePreferences\<close> and the events dispatched,
  both oldest first.
\<close>

type_synonym notification_preferences = "string \<rightharpoonup> bool"

datatype settings_event = notifications_disabled | notifications_enabled | error_event string

record settings =
  notificationPreferences :: notification_preferences
  isLoading :: bool
  savePreferences_calls :: "notification_preferences list"
  dispatched :: "settings_event list"

definition handleNotificationPreferenceChange :: "string \<Rightarrow> bool \<Rightarrow> settings \<Rightarrow> settings" where
  "handleNotificationPreferenceChange key v this =
     (let updated = (notificationPreferences this)(key \<mapsto> v)
      in this\<lparr>notificationPreferences := updated,
              savePreferences_calls := savePreferences_calls this @ [updated]\<rparr>)"

text \<open>A property read in a boolean position: \<open>undefined\<close> is falsy.\<close>

definition truthy :: "bool option \<Rightarrow> bool" where
  "truthy v = (case v of None \<Rightarrow> False | Some b \<Rightarrow> b)"

definition isNotificationsEnabled :: "settings \<Rightarrow> bool" where
  "isNotificationsEnabled this = truthy (notificationPreferences this ''enabled'')"

text \<open>
  What the push notification service answers during one run of
  \<open>handleToggleNotifications\<close>: whether \<open>unsubscribe\<close> throws, the permission that
  \<open>requestPermission\<close> returns (\<open>None\<close> when it throws), whether \<open>subscribe\<close>
  returns a subscription or \<open>null\<close> (\<open>None\<close> when it throws), and whether
  \<open>savePreferences\<close> throws.
\<close>

record push_answers =
  unsubscribe_throws :: bool
  requestPermission :: "string option"
  subscribe :: "bool option"
  savePreferences_throws :: bool

text \<open>
  \<open>handleToggleNotifications\<close>, the handler of the main switch. The result says
  whether the handler ended in an exception, and gives the state it left. The
  \<open>finally\<close> block resets \<open>isLoading\<close> on every path. The steps of the handler run
  without another handler in between.
\<close>

definition handleToggleNotifications :: "push_answers \<Rightarrow> settings \<Rightarrow> bool \<times> settings" where
  "handleToggleNotifications p this =
     (if isLoading this then (False, this)
      else if truthy (notificationPreferences this ''enabled'') then
        (if unsubscribe_throws p then (True, this\<lparr>isLoading := False\<rparr>)
         else
           (let updated = (notificationPreferences this)(''enabled'' \<mapsto> False);
                saved = this\<lparr>notificationPreferences := updated,
                             savePreferences_calls := savePreferences_calls this @ [updated]\<rparr>
            in if savePreferences_throws p then (True, saved\<lparr>isLoading := False\<rparr>)
               else (False, saved\<lparr>isLoading := False,
                                  dispatched := dispatched this @ [notifications_disabled]\<rparr>)))
      else
        (case requestPermission p of
           None \<Rightarrow> (True, this\<lparr>isLoading := False\<rparr>)
         | Some permission \<Rightarrow>
             if permission = ''granted'' then
               (case subscribe p of
                  None \<Rightarrow> (True, this\<lparr>isLoading := False\<rparr>)
                | Some True \<Rightarrow>
                    (let updated = (notificationPreferences this)(''enabled'' \<mapsto> True);
                         saved = this\<lparr>notificationPreferences := updated,
                                      savePreferences_calls := savePreferences_calls this @ [updated]\<rparr>
                     in if savePreferences_throws p then (True, saved\<lparr>isLoading := False\<rparr>)
                        else (False, saved\<lparr>isLoading := False,
                                           dispatched := dispatched this @ [notifications_enabled]\<rparr>))
                | Some False \<Rightarrow>
                    (False, this\<lparr>isLoading := False,
                                 dispatched := dispatched this
                                   @ [error_event ''Failed to subscribe to notifications'']\<rparr>))
             else
               (False, this\<lparr>isLoading := False,
                            dispatched := dispatched this
                              @ [error_event (if permission = ''denied''
                                              then ''Notifications permission denied''
                                              else ''Notifications permission not granted'')]\<rparr>)))"

text \<open>
  One switch of the dialog (an element with \<open>role="switch"\<close>): the key of the
  preference it shows, its label, its state, whether it is disabled, and the handler of
  its click. The main switch calls \<open>handleToggleNotifications\<close>; a switch built by
  \<open>renderNotificationToggle\<close> calls \<open>handleNotificationPreferenceChange\<close> with its
  key and the negation of the current value.
\<close>

datatype click_handler = ToggleNotifications | NotificationPreferenceChange

record toggle =
  toggle_key :: string
  toggle_label :: string
  aria_checked :: "bool option"
  disabled :: bool
  on_click :: click_handler

definition renderNotificationToggle :: "settings \<Rightarrow> string \<Rightarrow> string \<Rightarrow> toggle" where
  "renderNotificationToggle this key label =
     \<lparr>toggle_key = key, toggle_label = label, aria_checked = notificationPreferences this key,
      disabled = False, on_click = NotificationPreferenceChange\<rparr>"

definition main_toggle :: "settings \<Rightarrow> toggle" where
  "main_toggle this =
     \<lparr>toggle_key = ''enabled'', toggle_label = ''Enable Notifications'',
      aria_checked = notificationPreferences this ''enabled'',
      disabled = isLoading this, on_click = ToggleNotifications\<rparr>"

text \<open>A click on a switch; a disabled switch does not react.\<close>

definition click :: "push_answers \<Rightarrow> toggle \<Rightarrow> settings \<Rightarrow> settings" where
  "click p t this =
     (if disabled t then this
      else (case on_click t of
              ToggleNotifications \<Rightarrow> snd (handleToggleNotifications p this)
            | NotificationPreferenceChange \<Rightarrow>
                handleNotificationPreferenceChange (toggle_key t)
                  (\<not> truthy (notificationPreferences this (toggle_key t))) this))"

text \<open>
  The switches that \<open>renderNotificationSettings\<close> shows, in order. Where push
  notifications are not supported there is a warning and no switch. Otherwise the main
  switch comes first, and while the notifications are enabled the notification types
  and the notification behaviour follow it. (The test button is not a switch.)
\<close>

definition renderNotificationSettings :: "bool \<Rightarrow> settings \<Rightarrow> toggle list" where
  "renderNotificationSettings isNotificationsSupported this =
     (if \<not> isNotificationsSupported then []
      else main_toggle this #
        (if isNotificationsEnabled this
         then [renderNotificationToggle this ''sessionExit'' ''Session Exit'',
               renderNotificationToggle this ''sessionStart'' ''Session Start'',
               renderNotificationToggle this ''commandError'' ''Session Errors'',
               renderNotificationToggle this ''commandCompletion'' ''Command Completion'',
               renderNotificationToggle this ''bell'' ''System Alerts'',
               renderNotificationToggle this ''claudeTurn'' ''Claude Turn'',
               renderNotificationToggle this ''soundEnabled'' ''Sound'',
               renderNotificationToggle this ''vibrationEnabled'' ''Vibration'']
         else []))"

section \<open>The session service of the native client\<close>

text \<open>
  \<open>SessionService\<close> forwards to an \<open>APIClient\<close>. A call of the client runs against
  the state \<open>'s\<close> of the server, and either throws an error \<open>'e\<close> or returns. The
  logger is the list of the lines written, oldest first; \<open>describe\<close> is the text of an
  error in a string interpolation.
\<close>

record ('d, 'e, 's) APIClient =
  api_createSession :: "'d \<Rightarrow> 's \<Rightarrow> ('e + string) \<times> 's"
  api_killSession :: "string \<Rightarrow> 's \<Rightarrow> ('e + unit) \<times> 's"
  api_cleanupSession :: "string \<Rightarrow> 's \<Rightarrow> ('e + unit) \<times> 's"
  api_cleanupAllExitedSessions :: "'s \<Rightarrow> ('e + string list) \<times> 's"

definition createSession ::
  "('d, 'e, 's) APIClient \<Rightarrow> ('e \<Rightarrow> string) \<Rightarrow> 'd \<Rightarrow> 's \<times> string list
     \<Rightarrow> ('e + string) \<times> ('s \<times> string list)" where
  "createSession apiClient describe d st =
     (case st of (s, logger) \<Rightarrow>
        (case api_createSession apiClient d s of
           (Inr sessionId, s') \<Rightarrow> (Inr sessionId, (s', logger))
         | (Inl error, s') \<Rightarrow>
             (Inl error, (s', logger @ [''Failed to create session: '' @ describe error]))))"

definition killSession :: "('d, 'e, 's) APIClient \<Rightarrow> string \<Rightarrow> 's \<Rightarrow> ('e + unit) \<times> 's" where
  "killSession apiClient sessionId s = api_killSession apiClient sessionId s"

definition cleanupSession :: "('d, 'e, 's) APIClient \<Rightarrow> string \<Rightarrow> 's \<Rightarrow> ('e + unit) \<times> 's" where
  "cleanupSession apiClient sessionId s = api_cleanupSession apiClient sessionId s"

definition cleanupAllExitedSessions :: "('d, 'e, 's) APIClient \<Rightarrow> 's \<Rightarrow> ('e + string list) \<times> 's" where
  "cleanupAllExitedSessions apiClient s = api_cleanupAllExitedSessions apiClient s"

section \<open>The session registry\<close>

text \<open>
  The session registry of the server is not among the sources, which hold only the
  client that forwards to it. What follows is the registry as the specification
  describes it (its sections 3, 4.3 and 7).
\<close>

text \<open>Modelled from the spec: the status of a session.\<close>

datatype status = Starting | Running | Exited

text \<open>
  Modelled from the spec: a session, as far as cleanup looks at it. The exit code is
  present exactly when the session has exited.
\<close>

record session =
  status :: status
  exitCode :: "int option"

text \<open>Modelled from the spec: the errors of the registry and of the terminal.\<close>

datatype registry_error =
  NotFound | SessionStillRunning | SessionIdConflict | SpawnError | ProcessNotRunning
  | InvalidGeometry

text \<open>
  Modelled from the spec: the registry holds the sessions by id, in the order in which
  \<open>list()\<close> enumerates them.
\<close>

type_synonym registry = "(string \<times> session) list"

text \<open>
  Modelled from the spec: \<open>cleanup(id)\<close> removes the bookkeeping of an Exited session;
  it fails with \<open>SessionStillRunning\<close> on a session that is not Exited, and with
  \<open>NotFound\<close> on an unknown id.
\<close>

definition cleanup :: "string \<Rightarrow> registry \<Rightarrow> (registry_error + unit) \<times> registry" where
  "cleanup sid reg =
     (case map_of reg sid of
        None \<Rightarrow> (Inl NotFound, reg)
      | Some s \<Rightarrow>
          if status s \<noteq> Exited then (Inl SessionStillRunning, reg)
          else (Inr (), filter (\<lambda>(k, _). k \<noteq> sid) reg))"

text \<open>
  Modelled from the spec: one step of a bulk operation. The cleanup of one session
  either removes it, and its id joins the ids removed, or fails, and the failure is
  recorded and skipped without ending the batch.
\<close>

definition cleanup_step ::
  "string list \<times> (string \<times> registry_error) list \<times> registry \<Rightarrow> string
     \<Rightarrow> string list \<times> (string \<times> registry_error) list \<times> registry" where
  "cleanup_step acc sid =
     (case acc of (removed, failures, reg) \<Rightarrow>
        (case cleanup sid reg of
           (Inr _, reg') \<Rightarrow> (removed @ [sid], failures, reg')
         | (Inl err, reg') \<Rightarrow> (removed, failures @ [(sid, err)], reg')))"

text \<open>
  Modelled from the spec: \<open>cleanupAllExited()\<close> is the bulk form of \<open>cleanup\<close>. It
  takes the sessions that are Exited, in the order of the registry, and cleans each of
  them up. The result is the list of the ids removed, next to the failures recorded.
\<close>

definition cleanupAllExited ::
  "registry \<Rightarrow> string list \<times> (string \<times> registry_error) list \<times> registry" where
  "cleanupAllExited reg =
     foldl cleanup_step ([], [], reg) (map fst (filter (\<lambda>(k, s). status s = Exited) reg))"

text \<open>
  Modelled from the spec: a client whose two cleanup calls are answered by the
  registry. The bulk call returns the ids removed and does not throw.
\<close>

definition served_by_registry ::
  "('d, registry_error, registry) APIClient \<Rightarrow> ('d, registry_error, registry) APIClient" where
  "served_by_registry apiClient =
     apiClient\<lparr>api_cleanupSession := cleanup,
               api_cleanupAllExitedSessions :=
                 (\<lambda>reg. case cleanupAllExited reg of
                          (removed, failures, reg') \<Rightarrow> (Inr removed, reg'))\<rparr>"

section \<open>Properties of the entry pattern\<close>

lemma plus_greedy_mem:
  "(a, r) \<in> set (plus_greedy P s) \<Longrightarrow> s = a @ r \<and> a \<noteq> [] \<and> (\<forall>c\<in>set a. P c)"
proof (induction s arbitrary: a r)
  case Nil
  then show ?case by simp
next
  case (Cons c cs)
  then show ?case by (auto split: if_splits)
qed

lemma entry_regex_mem:
  assumes "(ts, lvl, mdl, msg) \<in> set (entry_regex line)"
  shows "\<exists>w1 w2 w3. line = ts @ w1 @ lvl @ w2 @ CHR ''['' # mdl @ CHR '']'' # w3 @ msg
           \<and> ts \<noteq> [] \<and> (\<forall>c\<in>set ts. non_space c)
           \<and> w1 \<noteq> [] \<and> (\<forall>c\<in>set w1. is_space c)
           \<and> lvl \<noteq> [] \<and> (\<forall>c\<in>set lvl. non_space c)
           \<and> w2 \<noteq> [] \<and> (\<forall>c\<in>set w2. is_space c)
           \<and> mdl \<noteq> [] \<and> (\<forall>c\<in>set mdl. not_rbracket c)
           \<and> w3 \<noteq> [] \<and> (\<forall>c\<in>set w3. is_space c)
           \<and> (\<forall>c\<in>set msg. dot c)"
proof -
  from assms obtain r1 w1 r2 r3 w2 r4 r5 r6 r7 w3 r8 where
    a: "(ts, r1) \<in> set (plus_greedy non_space line)"
    and b: "(w1, r2) \<in> set (plus_greedy is_space r1)"
    and c: "(lvl, r3) \<in> set (plus_greedy non_space r2)"
    and d: "(w2, r4) \<in> set (plus_greedy is_space r3)"
    and e: "r4 = CHR ''['' # r5"
    and f: "(mdl, r6) \<in> set (plus_greedy not_rbracket r5)"
    and g: "r6 = CHR '']'' # r7"
    and h: "(w3, r8) \<in> set (plus_greedy is_space r7)"
    and i: "(msg, []) \<in> set (star_greedy dot r8)"
    unfolding entry_regex_def List.bind_def lit_def at_end_def
    by (fastforce split: list.splits if_splits)
  from i have j: "r8 = msg \<and> (\<forall>c\<in>set msg. dot c)"
    unfolding star_greedy_def by (auto dest: plus_greedy_mem)
  note m = plus_greedy_mem
  from m[OF a] m[OF b] m[OF c] m[OF d] m[OF f] m[OF h] e g j
  have "line = ts @ w1 @ lvl @ w2 @ CHR ''['' # mdl @ CHR '']'' # w3 @ msg" by simp
  with m[OF a] m[OF b] m[OF c] m[OF d] m[OF f] m[OF h] j show ?thesis by blast
qed

lemma entry_match_mem: "entry_match line = Some m \<Longrightarrow> m \<in> set (entry_regex line)"
  by (auto simp: entry_match_def split: list.splits)

lemma all_non_space_trim:
  assumes "\<forall>c\<in>set s. non_space c"
  shows "trim s = s"
proof -
  have 1: "dropWhile is_space s = s"
    using assms by (cases s) (auto simp: non_space_def)
  have 2: "dropWhile is_space (rev s) = rev s"
    using assms by (cases s rule: rev_cases) (auto simp: non_space_def)
  show ?thesis by (simp add: trim_def 1 2)
qed

lemma dropWhile_all_self: "(\<forall>c\<in>set (dropWhile P s). P c) \<longleftrightarrow> (\<forall>c\<in>set s. P c)"
  by (induction s) auto

lemma trim_Nil_iff: "trim s = [] \<longleftrightarrow> (\<forall>c\<in>set s. is_space c)"
  by (simp add: trim_def dropWhile_eq_Nil_conv dropWhile_all_self)

lemma entry_match_not_blank: "entry_match line = Some m \<Longrightarrow> trim line \<noteq> []"
proof -
  assume a: "entry_match line = Some m"
  obtain ts lvl mdl msg where m: "m = (ts, lvl, mdl, msg)" by (cases m) auto
  from entry_regex_mem[OF entry_match_mem[OF a[unfolded m]]]
  obtain r where "line = ts @ r" "ts \<noteq> []" "\<forall>c\<in>set ts. non_space c" by blast
  then show ?thesis by (cases ts) (auto simp: trim_Nil_iff non_space_def)
qed


lemma plus_greedy_Nil: "s = [] \<or> \<not> P (hd s) \<Longrightarrow> plus_greedy P s = []"
  by (cases s) auto

lemma plus_greedy_max:
  assumes "a \<noteq> []" "\<forall>c\<in>set a. P c" "r = [] \<or> \<not> P (hd r)"
  shows "\<exists>rest. plus_greedy P (a @ r) = (a, r) # rest
           \<and> (\<forall>(a', r')\<in>set rest. r' \<noteq> [] \<and> P (hd r'))"
  using assms
proof (induction a)
  case Nil
  then show ?case by simp
next
  case (Cons c a)
  show ?case
  proof (cases "a = []")
    case True
    with Cons.prems show ?thesis by (simp add: plus_greedy_Nil)
  next
    case False
    with Cons.prems Cons.IH obtain rest where
      1: "plus_greedy P (a @ r) = (a, r) # rest"
      and 2: "\<forall>(a', r')\<in>set rest. r' \<noteq> [] \<and> P (hd r')"
      by auto
    have 3: "a @ r \<noteq> [] \<and> P (hd (a @ r))" using False Cons.prems by (cases a) auto
    show ?thesis
      by (rule exI[of _ "map (\<lambda>(x, y). (c # x, y)) rest @ [([c], a @ r)]"])
         (use 1 2 3 Cons.prems in auto)
  qed
qed

lemma bind_plus_greedy_max:
  assumes "a \<noteq> []" "\<forall>c\<in>set a. P c" "r = [] \<or> \<not> P (hd r)"
    and "\<And>a' r'. r' \<noteq> [] \<Longrightarrow> P (hd r') \<Longrightarrow> f (a', r') = []"
  shows "List.bind (plus_greedy P (a @ r)) f = f (a, r)"
proof -
  from plus_greedy_max[OF assms(1-3)] obtain rest where
    1: "plus_greedy P (a @ r) = (a, r) # rest"
    and 2: "\<forall>(a', r')\<in>set rest. r' \<noteq> [] \<and> P (hd r')"
    by blast
  have "List.bind rest f = []"
    using 2 assms(4) by (induction rest) auto
  then show ?thesis by (simp add: 1)
qed

lemma bind_plus_greedy_first:
  assumes "a \<noteq> []" "\<forall>c\<in>set a. P c" "r = [] \<or> \<not> P (hd r)"
  shows "\<exists>more. List.bind (plus_greedy P (a @ r)) f = f (a, r) @ more"
proof -
  from plus_greedy_max[OF assms(1-3)] obtain rest where
    1: "plus_greedy P (a @ r) = (a, r) # rest" by blast
  show ?thesis by (simp add: 1)
qed

text \<open>
  The converse of \<open>entry_regex_mem\<close>: a line made of a timestamp and a level without
  white space, a module without a closing bracket, and a message without a line
  terminator that does not begin with white space, the pieces separated by white space
  and the brackets, matches the pattern with exactly these captures. (White space before
  the message belongs to the separator: the greedy \<open>\s+\<close> takes all of it.)
\<close>

lemma entry_match_form:
  assumes ts: "ts \<noteq> []" "\<forall>c\<in>set ts. non_space c"
    and w1: "w1 \<noteq> []" "\<forall>c\<in>set w1. is_space c"
    and lvl: "lvl \<noteq> []" "\<forall>c\<in>set lvl. non_space c"
    and w2: "w2 \<noteq> []" "\<forall>c\<in>set w2. is_space c"
    and mdl: "mdl \<noteq> []" "\<forall>c\<in>set mdl. not_rbracket c"
    and w3: "w3 \<noteq> []" "\<forall>c\<in>set w3. is_space c"
    and msg: "\<forall>c\<in>set msg. dot c" "msg = [] \<or> non_space (hd msg)"
  shows "entry_match (ts @ w1 @ lvl @ w2 @ ''['' @ mdl @ '']'' @ w3 @ msg) = Some (ts, lvl, mdl, msg)"
proof -
  have sp: "is_space (hd w1)" "is_space (hd w2)" "is_space (hd w3)"
    using w1 w2 w3 by (simp_all add: hd_in_set)
  have nsp: "non_space (hd lvl)" using lvl by (simp add: hd_in_set)
  have lb: "non_space CHR ''[''" "is_space c \<Longrightarrow> c \<noteq> CHR ''[''" for c
    by (auto simp: non_space_def is_space_def)
  \<comment> \<open>the message\<close>
  have s9: "\<exists>more. List.bind (star_greedy dot msg) (\<lambda>(m, r9). List.bind (at_end r9) (\<lambda>_. [(x, y, z, m)]))
               = (x, y, z, msg) # more" for x y z :: string
  proof (cases "msg = []")
    case True
    then show ?thesis by (simp add: star_greedy_def at_end_def)
  next
    case False
    from plus_greedy_max[OF False msg(1), of "[]"] obtain rest where
      "plus_greedy dot msg = (msg, []) # rest" by auto
    then show ?thesis by (simp add: star_greedy_def at_end_def)
  qed
  \<comment> \<open>the last run of white space: the longest split comes first\<close>
  have s8: "\<exists>more. List.bind (plus_greedy is_space (w3 @ msg))
               (\<lambda>(w, r8). List.bind (star_greedy dot r8)
                  (\<lambda>(m, r9). List.bind (at_end r9) (\<lambda>_. [(x, y, z, m)])))
               = (x, y, z, msg) # more" for x y z :: string
  proof -
    have c: "msg = [] \<or> \<not> is_space (hd msg)" using msg(2) by (auto simp: non_space_def)
    from bind_plus_greedy_first[OF w3 c] s9[of x y z] show ?thesis
      by (metis (no_types, lifting) append_Cons case_prod_conv)
  qed
  have s6: "List.bind (plus_greedy not_rbracket (mdl @ CHR '']'' # R))
              (\<lambda>(m, r6). List.bind (lit CHR '']'' r6) (G m)) = G mdl R" for R and G :: "string \<Rightarrow> string \<Rightarrow> 'a list"
    by (subst bind_plus_greedy_max[OF mdl])
       (auto simp: not_rbracket_def lit_def split: list.splits)
  have s4: "List.bind (plus_greedy is_space (w2 @ CHR ''['' # R))
              (\<lambda>(w, r4). List.bind (lit CHR ''['' r4) G) = G R" for R and G :: "string \<Rightarrow> 'a list"
    by (subst bind_plus_greedy_max[OF w2])
       (auto simp: lit_def is_space_def split: list.splits)
  have s3: "List.bind (plus_greedy non_space (lvl @ w2 @ R))
              (\<lambda>(l, r3). List.bind (plus_greedy is_space r3) (G l)) =
            List.bind (plus_greedy is_space (w2 @ R)) (G lvl)" for R and G :: "string \<Rightarrow> string \<times> string \<Rightarrow> 'a list"
    by (subst bind_plus_greedy_max[OF lvl])
       (use w2 sp in \<open>auto simp: non_space_def plus_greedy_Nil\<close>)
  have s2: "List.bind (plus_greedy is_space (w1 @ lvl @ R))
              (\<lambda>(w, r2). List.bind (plus_greedy non_space r2) G) =
            List.bind (plus_greedy non_space (lvl @ R)) G" for R and G :: "string \<times> string \<Rightarrow> 'a list"
    by (subst bind_plus_greedy_max[OF w1])
       (use lvl nsp in \<open>auto simp: non_space_def plus_greedy_Nil\<close>)
  have s1: "List.bind (plus_greedy non_space (ts @ w1 @ R))
              (\<lambda>(t, r1). List.bind (plus_greedy is_space r1) (G t)) =
            List.bind (plus_greedy is_space (w1 @ R)) (G ts)" for R and G :: "string \<Rightarrow> string \<times> string \<Rightarrow> 'a list"
    by (subst bind_plus_greedy_max[OF ts])
       (use w1 sp in \<open>auto simp: non_space_def plus_greedy_Nil\<close>)
  have "\<exists>more. entry_regex (ts @ w1 @ lvl @ w2 @ CHR ''['' # mdl @ CHR '']'' # w3 @ msg)
          = (ts, lvl, mdl, msg) # more"
    unfolding entry_regex_def
    by (simp only: s1 s2 s3 s4 s6 s8)
  then show ?thesis by (auto simp: entry_match_def)
qed

section \<open>Properties of parseLogs\<close>

declare parse_line.simps [simp del]

lemma push_current_append: "push_current (a @ b) c = a @ push_current b c"
  by (simp add: push_current_def split: option.splits)

lemma parse_line_prefix:
  "parse_line (logs, cur) l = (logs @ fst (parse_line ([], cur) l), snd (parse_line ([], cur) l))"
  by (simp add: parse_line.simps push_current_def split: option.splits)

lemma foldl_parse_line_prefix:
  "foldl parse_line (logs, cur) ls =
     (logs @ fst (foldl parse_line ([], cur) ls), snd (foldl parse_line ([], cur) ls))"
proof (induction ls arbitrary: logs cur)
  case Nil
  then show ?case by simp
next
  case (Cons l ls)
  obtain a c where p: "parse_line ([], cur) l = (a, c)" by (cases "parse_line ([], cur) l")
  have q: "parse_line (logs, cur) l = (logs @ a, c)"
    using parse_line_prefix[of logs cur l] p by simp
  show ?case
    using Cons.IH[of "logs @ a" c] Cons.IH[of a c] by (simp add: p q)
qed

lemma finish_prefix:
  "push_last (foldl parse_line (logs, cur) ls) = logs @ push_last (foldl parse_line ([], cur) ls)"
  by (subst foldl_parse_line_prefix) (simp add: push_last_def push_current_append split: prod.splits)

lemma parse_line_header:
  "entry_match l = Some m \<Longrightarrow>
     parse_line (logs, cur) l = (push_current logs cur, Some (new_entry m))"
  by (simp add: parse_line.simps entry_match_not_blank)

lemma foldl_continuation:
  "\<forall>l\<in>set cs. entry_match l = None \<Longrightarrow>
     foldl parse_line (logs, Some e) cs =
       (logs, Some (e\<lparr>message := message e @ continuation cs\<rparr>))"
proof (induction cs arbitrary: e)
  case Nil
  then show ?case by (simp add: continuation_def)
next
  case (Cons c cs)
  then show ?case by (simp add: parse_line.simps continuation_def)
qed

lemma foldl_orphans:
  "\<forall>l\<in>set cs. entry_match l = None \<Longrightarrow>
     foldl parse_line (logs, None) cs =
       (logs @ map unknown_entry (filter (\<lambda>l. trim l \<noteq> []) cs), None)"
  by (induction cs arbitrary: logs) (simp_all add: parse_line.simps)

lemma finish_after_entry:
  assumes "ys = [] \<or> entry_match (hd ys) \<noteq> None"
  shows "push_last (foldl parse_line (logs, Some e) ys) = logs @ e # parseLines ys"
proof (cases ys)
  case Nil
  then show ?thesis by (simp add: parseLines_def push_last_def push_current_def)
next
  case (Cons h t)
  with assms obtain m where m: "entry_match h = Some m" by auto
  show ?thesis
    unfolding Cons parseLines_def
    by (simp only: foldl_Cons parse_line_header[OF m])
       (simp add: push_current_def finish_prefix[of "logs @ [e]"])
qed

lemma dropWhile_head: "dropWhile P ys = [] \<or> \<not> P (hd (dropWhile P ys))"
  using hd_dropWhile by blast

lemma parseLines_entry:
  assumes "entry_match line = Some m"
  shows "parseLines (pre @ line # rest) =
           parseLines pre
           @ (new_entry m)\<lparr>message := message (new_entry m)
                @ continuation (takeWhile no_entry rest)\<rparr>
           # parseLines (dropWhile no_entry rest)"
proof -
  obtain L c where pre: "foldl parse_line ([], None) pre = (L, c)"
    by (cases "foldl parse_line ([], None) pre")
  have P: "parseLines pre = push_current L c" by (simp add: parseLines_def push_last_def pre)
  have split: "rest = takeWhile no_entry rest @ dropWhile no_entry rest" by simp
  have tw: "\<forall>l\<in>set (takeWhile no_entry rest). entry_match l = None"
    by (auto dest: set_takeWhileD simp: no_entry_def)
  have dw: "dropWhile no_entry rest = [] \<or> entry_match (hd (dropWhile no_entry rest)) \<noteq> None"
    using dropWhile_head[of no_entry rest] by (simp add: no_entry_def)
  have "foldl parse_line ([], None) (pre @ line # rest) =
          foldl parse_line (push_current L c, Some (new_entry m)) rest"
    by (simp add: pre parse_line_header[OF assms])
  also have "\<dots> = foldl parse_line (foldl parse_line (push_current L c, Some (new_entry m))
                        (takeWhile no_entry rest)) (dropWhile no_entry rest)"
    by (subst split) (simp only: foldl_append)
  also have "\<dots> = foldl parse_line (push_current L c,
        Some ((new_entry m)\<lparr>message := message (new_entry m)
                @ continuation (takeWhile no_entry rest)\<rparr>)) (dropWhile no_entry rest)"
    by (simp only: foldl_continuation[OF tw])
  finally show ?thesis
    unfolding parseLines_def[of "pre @ line # rest"]
    by (simp only: finish_after_entry[OF dw] P)
qed

lemma parseLines_orphan:
  assumes "\<forall>l\<in>set pre. entry_match l = None" "entry_match line = None" "trim line \<noteq> []"
  shows "parseLines (pre @ line # rest) =
           map unknown_entry (filter (\<lambda>l. trim l \<noteq> []) pre) @ unknown_entry line # parseLines rest"
    and "parseLines pre = map unknown_entry (filter (\<lambda>l. trim l \<noteq> []) pre)"
proof -
  show "parseLines pre = map unknown_entry (filter (\<lambda>l. trim l \<noteq> []) pre)"
    by (simp add: parseLines_def push_last_def foldl_orphans[OF assms(1)] push_current_def)
  have "foldl parse_line ([], None) (pre @ line # rest) =
        foldl parse_line (map unknown_entry (filter (\<lambda>l. trim l \<noteq> []) pre) @ [unknown_entry line], None) rest"
    using assms by (simp add: foldl_orphans[OF assms(1)] parse_line.simps)
  then show "parseLines (pre @ line # rest) =
           map unknown_entry (filter (\<lambda>l. trim l \<noteq> []) pre) @ unknown_entry line # parseLines rest"
    unfolding parseLines_def
    by (simp only: finish_prefix[of "map unknown_entry (filter (\<lambda>l. trim l \<noteq> []) pre) @ [unknown_entry line]"]) simp
qed



lemma parseLogs_entry_match:
  assumes "split_nl text = pre @ line # rest"
    and "entry_match line = Some (ts, lvl, mdl, msg)"
  shows "\<exists>e. parseLogs text = parseLines pre @ e # parseLines (dropWhile no_entry rest)
         \<and> timestamp e = ts
         \<and> level e = toLowerCase lvl
         \<and> isClient e = startsWith mdl ''CLIENT:''
         \<and> module e = (if startsWith mdl ''CLIENT:'' then drop 7 mdl else mdl)
         \<and> message e = msg @ continuation (takeWhile no_entry rest)"
proof -
  let ?m = "(ts, lvl, mdl, msg)"
  let ?e = "(new_entry ?m)\<lparr>message := message (new_entry ?m) @ continuation (takeWhile no_entry rest)\<rparr>"
  from entry_regex_mem[OF entry_match_mem[OF assms(2)]]
  have lvl: "\<forall>c\<in>set lvl. non_space c" by blast
  have 1: "parseLogs text = parseLines pre @ ?e # parseLines (dropWhile no_entry rest)"
    unfolding parseLogs_def assms(1) by (rule parseLines_entry[OF assms(2)])
  have 2: "level ?e = toLowerCase lvl"
    by (simp add: new_entry_def Let_def all_non_space_trim[OF lvl])
  have 3: "timestamp ?e = ts" "isClient ?e = startsWith mdl ''CLIENT:''"
    "module ?e = (if startsWith mdl ''CLIENT:'' then drop 7 mdl else mdl)"
    "message ?e = msg @ continuation (takeWhile no_entry rest)"
    by (simp_all add: new_entry_def Let_def substring_def)
  from 1 2 3 show ?thesis by blast
qed

text \<open>
  Claim C1. For every input text, a line of the form
  \<open><timestamp> <level> [<module>] <message>\<close> becomes exactly one entry, placed after
  the entries of the lines before it. The form is the one that the pattern accepts: a
  timestamp and a level without white space, a module without a closing bracket, a
  message without a line terminator, the pieces separated by white space (which the
  message does not begin with) and the two brackets. The entry has the timestamp of the
  line, its level in lower case, and its message (followed by the continuation lines,
  if any). It is marked as coming from the client exactly when the module starts with
  \<open>CLIENT:\<close>, and then the stored module is the module without these seven characters;
  otherwise the module is stored as it is and the entry is marked as coming from the
  server.
\<close>

theorem parseLogs_entry_line:
  assumes "split_nl text = pre @ line # rest"
    and "line = ts @ w1 @ lvl @ w2 @ ''['' @ mdl @ '']'' @ w3 @ msg"
    and "ts \<noteq> []" and "\<forall>c\<in>set ts. \<not> is_space c"
    and "w1 \<noteq> []" and "\<forall>c\<in>set w1. is_space c"
    and "lvl \<noteq> []" and "\<forall>c\<in>set lvl. \<not> is_space c"
    and "w2 \<noteq> []" and "\<forall>c\<in>set w2. is_space c"
    and "mdl \<noteq> []" and "\<forall>c\<in>set mdl. c \<noteq> CHR '']''"
    and "w3 \<noteq> []" and "\<forall>c\<in>set w3. is_space c"
    and "\<forall>c\<in>set msg. \<not> is_line_terminator c"
    and "msg = [] \<or> \<not> is_space (hd msg)"
  shows "\<exists>e. parseLogs text = parseLines pre @ e # parseLines (dropWhile no_entry rest)
         \<and> entry_match line = Some (ts, lvl, mdl, msg)
         \<and> timestamp e = ts
         \<and> level e = toLowerCase lvl
         \<and> isClient e = startsWith mdl ''CLIENT:''
         \<and> module e = (if startsWith mdl ''CLIENT:'' then drop 7 mdl else mdl)
         \<and> message e = msg @ continuation (takeWhile no_entry rest)"
proof -
  have m: "entry_match line = Some (ts, lvl, mdl, msg)"
    unfolding assms(2)
    by (rule entry_match_form)
       (use assms(3-16) in \<open>simp_all add: non_space_def not_rbracket_def dot_def\<close>)
  from parseLogs_entry_match[OF assms(1) m] m show ?thesis by blast
qed

theorem parseLogs_entry_line_witness:
  "split_nl (''t1 INFO [CLIENT:ui] one'' @ CHR 0x0A # ''  more'' @ CHR 0x0A # ''t2 WARN [srv] two'')
     = [] @ ''t1 INFO [CLIENT:ui] one'' # [''  more'', ''t2 WARN [srv] two'']
   \<and> ''t1 INFO [CLIENT:ui] one'' = ''t1'' @ '' '' @ ''INFO'' @ '' '' @ ''['' @ ''CLIENT:ui'' @ '']'' @ '' '' @ ''one''
   \<and> (\<exists>e. parseLogs (''t1 INFO [CLIENT:ui] one'' @ CHR 0x0A # ''  more'' @ CHR 0x0A # ''t2 WARN [srv] two'')
           = parseLines [] @ e # parseLines (dropWhile no_entry [''  more'', ''t2 WARN [srv] two''])
       \<and> entry_match ''t1 INFO [CLIENT:ui] one'' = Some (''t1'', ''INFO'', ''CLIENT:ui'', ''one'')
       \<and> timestamp e = ''t1''
       \<and> level e = toLowerCase ''INFO''
       \<and> isClient e = startsWith ''CLIENT:ui'' ''CLIENT:''
       \<and> module e = (if startsWith ''CLIENT:ui'' ''CLIENT:'' then drop 7 ''CLIENT:ui'' else ''CLIENT:ui'')
       \<and> message e = ''one'' @ continuation (takeWhile no_entry [''  more'', ''t2 WARN [srv] two'']))"
proof -
  have h1: "split_nl (''t1 INFO [CLIENT:ui] one'' @ CHR 0x0A # ''  more'' @ CHR 0x0A # ''t2 WARN [srv] two'')
     = [] @ ''t1 INFO [CLIENT:ui] one'' # [''  more'', ''t2 WARN [srv] two'']"
    by simp
  have h2: "''t1 INFO [CLIENT:ui] one'' = ''t1'' @ '' '' @ ''INFO'' @ '' '' @ ''['' @ ''CLIENT:ui'' @ '']'' @ '' '' @ ''one''"
    by simp
  have sp: "''t1'' \<noteq> []" "\<forall>c\<in>set ''t1''. \<not> is_space c"
    "'' '' \<noteq> []" "\<forall>c\<in>set '' ''. is_space c"
    "''INFO'' \<noteq> []" "\<forall>c\<in>set ''INFO''. \<not> is_space c"
    "''CLIENT:ui'' \<noteq> []" "\<forall>c\<in>set ''CLIENT:ui''. c \<noteq> CHR '']''"
    "\<forall>c\<in>set ''one''. \<not> is_line_terminator c"
    "''one'' = [] \<or> \<not> is_space (hd ''one'')"
    by (simp_all add: is_space_def is_line_terminator_def)
  from parseLogs_entry_line[OF h1 h2 sp(1,2,3,4,5,6,3,4,7,8,3,4,9,10)] h1 h2
  show ?thesis by blast
qed

text \<open>
  Claim C2, as amended. For every input text, a line that holds a character other than
  white space, does not match the entry pattern and comes after a line that does
  (\<open>hdr\<close>, the last such line before it, so that the lines between are continuation
  lines too) is merged into the entry of \<open>hdr\<close>: a line feed and the line are appended
  to the message, after the continuation lines before it. It makes no entry of its own:
  the text without the line gives the same entries, the message of that entry apart.
\<close>

theorem parseLogs_continuation_line:
  assumes "split_nl text = pre @ hdr # mid @ line # rest"
    and "entry_match hdr = Some m"
    and "\<forall>l\<in>set mid. entry_match l = None"
    and "entry_match line = None"
    and "trim line \<noteq> []"
  shows "parseLogs text =
           parseLines pre
           @ (new_entry m)\<lparr>message := message (new_entry m) @ continuation mid
                @ CHR 0x0A # line @ continuation (takeWhile no_entry rest)\<rparr>
           # parseLines (dropWhile no_entry rest)
       \<and> parseLines (pre @ hdr # mid @ rest) =
           parseLines pre
           @ (new_entry m)\<lparr>message := message (new_entry m) @ continuation mid
                @ continuation (takeWhile no_entry rest)\<rparr>
           # parseLines (dropWhile no_entry rest)"
proof -
  have mid: "\<forall>l\<in>set mid. no_entry l" using assms(3) by (simp add: no_entry_def)
  have line: "no_entry line" using assms(4) by (simp add: no_entry_def)
  have tw1: "takeWhile no_entry (mid @ line # rest) = mid @ line # takeWhile no_entry rest"
    using mid line by (simp add: takeWhile_append2)
  have dw1: "dropWhile no_entry (mid @ line # rest) = dropWhile no_entry rest"
    using mid line by (simp add: dropWhile_append2)
  have tw2: "takeWhile no_entry (mid @ rest) = mid @ takeWhile no_entry rest"
    using mid by (simp add: takeWhile_append2)
  have dw2: "dropWhile no_entry (mid @ rest) = dropWhile no_entry rest"
    using mid by (simp add: dropWhile_append2)
  have c1: "continuation (mid @ line # takeWhile no_entry rest) =
              continuation mid @ CHR 0x0A # line @ continuation (takeWhile no_entry rest)"
    using assms(5) by (simp add: continuation_def)
  have c2: "continuation (mid @ takeWhile no_entry rest) =
              continuation mid @ continuation (takeWhile no_entry rest)"
    by (simp add: continuation_def)
  have A: "parseLogs text =
           parseLines pre
           @ (new_entry m)\<lparr>message := message (new_entry m) @ continuation mid
                @ CHR 0x0A # line @ continuation (takeWhile no_entry rest)\<rparr>
           # parseLines (dropWhile no_entry rest)"
    unfolding parseLogs_def assms(1)
    using parseLines_entry[OF assms(2), of pre "mid @ line # rest"]
    by (simp only: tw1 dw1 c1)
  have B: "parseLines (pre @ hdr # mid @ rest) =
           parseLines pre
           @ (new_entry m)\<lparr>message := message (new_entry m) @ continuation mid
                @ continuation (takeWhile no_entry rest)\<rparr>
           # parseLines (dropWhile no_entry rest)"
    using parseLines_entry[OF assms(2), of pre "mid @ rest"]
    by (simp only: tw2 dw2 c2)
  from A B show ?thesis by (rule conjI)
qed


theorem parseLogs_continuation_line_witness:
  "split_nl (''t1 INFO [srv] one'' @ CHR 0x0A # ''  at f()'' @ CHR 0x0A # ''  at g()''
        @ CHR 0x0A # ''t2 WARN [srv] two'')
     = [] @ ''t1 INFO [srv] one'' # [''  at f()''] @ ''  at g()'' # [''t2 WARN [srv] two'']
   \<and> entry_match ''t1 INFO [srv] one'' = Some (''t1'', ''INFO'', ''srv'', ''one'')
   \<and> entry_match ''  at f()'' = None
   \<and> entry_match ''  at g()'' = None
   \<and> trim ''  at g()'' \<noteq> []
   \<and> parseLogs (''t1 INFO [srv] one'' @ CHR 0x0A # ''  at f()'' @ CHR 0x0A # ''  at g()''
        @ CHR 0x0A # ''t2 WARN [srv] two'') =
         parseLines []
         @ (new_entry (''t1'', ''INFO'', ''srv'', ''one''))
             \<lparr>message := message (new_entry (''t1'', ''INFO'', ''srv'', ''one''))
                @ continuation [''  at f()''] @ CHR 0x0A # ''  at g()''
                @ continuation (takeWhile no_entry [''t2 WARN [srv] two''])\<rparr>
         # parseLines (dropWhile no_entry [''t2 WARN [srv] two''])
   \<and> parseLines ([] @ ''t1 INFO [srv] one'' # [''  at f()''] @ [''t2 WARN [srv] two'']) =
         parseLines []
         @ (new_entry (''t1'', ''INFO'', ''srv'', ''one''))
             \<lparr>message := message (new_entry (''t1'', ''INFO'', ''srv'', ''one''))
                @ continuation [''  at f()'']
                @ continuation (takeWhile no_entry [''t2 WARN [srv] two''])\<rparr>
         # parseLines (dropWhile no_entry [''t2 WARN [srv] two''])"
proof -
  have h1: "split_nl (''t1 INFO [srv] one'' @ CHR 0x0A # ''  at f()'' @ CHR 0x0A # ''  at g()''
        @ CHR 0x0A # ''t2 WARN [srv] two'')
     = [] @ ''t1 INFO [srv] one'' # [''  at f()''] @ ''  at g()'' # [''t2 WARN [srv] two'']"
    by simp
  have h2: "entry_match ''t1 INFO [srv] one'' = Some (''t1'', ''INFO'', ''srv'', ''one'')"
    by code_simp
  have h3': "entry_match ''  at f()'' = None" by code_simp
  then have h3: "\<forall>l\<in>set [''  at f()'']. entry_match l = None" by simp
  have h4: "entry_match ''  at g()'' = None" by code_simp
  have h5: "trim ''  at g()'' \<noteq> []" by code_simp
  from parseLogs_continuation_line[OF h1 h2 h3 h4 h5] h1 h2 h3' h4 h5 show ?thesis by blast
qed

text \<open>
  Claim C2 as stated, for every non-empty line, fails on a line of white space only:
  such a line is not empty, does not match the pattern and follows an entry, but the
  loop skips it, and the message of the entry before it stays as it was.
\<close>

theorem parseLogs_blank_continuation_counterexample:
  "''  '' \<noteq> []
   \<and> entry_match ''  '' = None
   \<and> entry_match ''t1 INFO [srv] one'' = Some (''t1'', ''INFO'', ''srv'', ''one'')
   \<and> parseLogs (''t1 INFO [srv] one'' @ CHR 0x0A # ''  '') =
       [\<lparr>timestamp = ''t1'', level = ''info'', module = ''srv'', message = ''one'',
         isClient = False\<rparr>]"
  by code_simp

text \<open>
  Claim C8, as amended. A line that holds a character other than white space, does not
  match the entry pattern and has no matching line before it is not dropped: it becomes
  an entry of its own, with an empty timestamp, the level \<open>log\<close>, the module
  \<open>unknown\<close>, the line itself as the message, and the mark of the server. The lines
  before it, none of which matches, have each made such an entry as well.
\<close>

theorem parseLogs_orphan_line:
  assumes "split_nl text = pre @ line # rest"
    and "\<forall>l\<in>set pre. entry_match l = None"
    and "entry_match line = None"
    and "trim line \<noteq> []"
  shows "parseLogs text =
           map unknown_entry (filter (\<lambda>l. trim l \<noteq> []) pre)
           @ \<lparr>timestamp = [], level = ''log'', module = ''unknown'', message = line,
               isClient = False\<rparr>
           # parseLines rest"
  unfolding parseLogs_def assms(1)
  using parseLines_orphan(1)[OF assms(2,3,4), of rest]
  by (simp add: unknown_entry_def)

theorem parseLogs_orphan_line_witness:
  "split_nl (''junk'' @ CHR 0x0A # ''more junk'' @ CHR 0x0A # ''t2 WARN [srv] two'')
     = [''junk''] @ ''more junk'' # [''t2 WARN [srv] two'']
   \<and> entry_match ''junk'' = None
   \<and> entry_match ''more junk'' = None
   \<and> trim ''more junk'' \<noteq> []
   \<and> parseLogs (''junk'' @ CHR 0x0A # ''more junk'' @ CHR 0x0A # ''t2 WARN [srv] two'') =
         map unknown_entry (filter (\<lambda>l. trim l \<noteq> []) [''junk''])
         @ \<lparr>timestamp = [], level = ''log'', module = ''unknown'', message = ''more junk'',
             isClient = False\<rparr>
         # parseLines [''t2 WARN [srv] two'']"
proof -
  have h1: "split_nl (''junk'' @ CHR 0x0A # ''more junk'' @ CHR 0x0A # ''t2 WARN [srv] two'')
     = [''junk''] @ ''more junk'' # [''t2 WARN [srv] two'']"
    by simp
  have h2': "entry_match ''junk'' = None" by code_simp
  then have h2: "\<forall>l\<in>set [''junk'']. entry_match l = None" by simp
  have h3: "entry_match ''more junk'' = None" by code_simp
  have h4: "trim ''more junk'' \<noteq> []" by code_simp
  from parseLogs_orphan_line[OF h1 h2 h3 h4] h1 h2' h3 h4 show ?thesis by blast
qed


text \<open>
  Claim C8 as stated, for every non-empty line, fails on a line of white space only:
  such a line is not empty, does not match the pattern and has no entry before it, and
  it is dropped.
\<close>

theorem parseLogs_blank_orphan_counterexample:
  "''  '' \<noteq> [] \<and> entry_match ''  '' = None \<and> parseLogs ''  '' = []"
  by code_simp

section \<open>Properties of the terminal preferences\<close>

lemma Math_clamp_commute:
  "Math_max (Fin 8) (Math_min (Fin 32) x) = Math_min (Fin 32) (Math_max (Fin 8) x)"
  by (cases x) (auto simp: max_def min_def)

lemma fst_savePreferences: "fst (savePreferences e (this, ls)) = this"
  by (simp add: savePreferences_def Let_def)

text \<open>
  Claim C9. For every number \<open>x\<close>, \<open>getMaxCols()\<close> after \<open>setMaxCols(x)\<close> returns
  \<open>max(0, x)\<close>, and \<open>getFontSize()\<close> after \<open>setFontSize(x)\<close> returns
  \<open>min(32, max(8, x))\<close>: as \<open>Math.max\<close> and \<open>Math.min\<close> compute them for any number
  (not-a-number and the infinities included), and as the maximum and minimum of the reals
  for a finite \<open>x\<close>. Each setter leaves every other property of the preferences as it
  was.
\<close>

theorem setMaxCols_setFontSize_clamp:
  "getMaxCols (fst (setMaxCols e x (this, ls))) = Some (JNum (Math_max (Fin 0) x))
   \<and> getFontSize (fst (setFontSize e x (this, ls))) = Some (JNum (Math_min (Fin 32) (Math_max (Fin 8) x)))
   \<and> getMaxCols (fst (setMaxCols e (Fin r) (this, ls))) = Some (JNum (Fin (max 0 r)))
   \<and> getFontSize (fst (setFontSize e (Fin r) (this, ls))) = Some (JNum (Fin (min 32 (max 8 r))))
   \<and> (\<forall>k. k \<noteq> ''maxCols'' \<longrightarrow>
         preferences (fst (setMaxCols e x (this, ls))) k = preferences this k)
   \<and> (\<forall>k. k \<noteq> ''fontSize'' \<longrightarrow>
         preferences (fst (setFontSize e x (this, ls))) k = preferences this k)"
proof -
  have a: "fst (setMaxCols e y (this, ls)) =
             this\<lparr>preferences := (preferences this)(''maxCols'' \<mapsto> JNum (Math_max (Fin 0) y))\<rparr>" for y
    by (simp add: setMaxCols_def fst_savePreferences)
  have b: "fst (setFontSize e y (this, ls)) =
             this\<lparr>preferences := (preferences this)
               (''fontSize'' \<mapsto> JNum (Math_max (Fin 8) (Math_min (Fin 32) y)))\<rparr>" for y
    by (simp add: setFontSize_def fst_savePreferences)
  have c: "Math_max (Fin 8) (Math_min (Fin 32) (Fin r)) = Fin (min 32 (max 8 r))"
    by (simp add: max_def min_def)
  show ?thesis
    by (simp add: a b c getMaxCols_def getFontSize_def Math_clamp_commute)
qed

theorem setMaxCols_setFontSize_clamp_witness:
  "getMaxCols (fst (setMaxCols
       \<lparr>detectMobile = False, JSON_parse = Map.empty, JSON_stringify = (\<lambda>p. ''{}''),
        setItem_succeeds = (\<lambda>k v. True)\<rparr> (Fin (- 5))
       (\<lparr>preferences = obj_of [(''maxCols'', JNum (Fin 80)), (''fontSize'', JNum (Fin 14))]\<rparr>, None)))
     = Some (JNum (Fin 0))
   \<and> preferences (fst (setMaxCols
       \<lparr>detectMobile = False, JSON_parse = Map.empty, JSON_stringify = (\<lambda>p. ''{}''),
        setItem_succeeds = (\<lambda>k v. True)\<rparr> (Fin (- 5))
       (\<lparr>preferences = obj_of [(''maxCols'', JNum (Fin 80)), (''fontSize'', JNum (Fin 14))]\<rparr>, None)))
       ''fontSize'' = Some (JNum (Fin 14))
   \<and> getFontSize (fst (setFontSize
       \<lparr>detectMobile = False, JSON_parse = Map.empty, JSON_stringify = (\<lambda>p. ''{}''),
        setItem_succeeds = (\<lambda>k v. True)\<rparr> (Fin 40)
       (\<lparr>preferences = obj_of [(''maxCols'', JNum (Fin 80)), (''fontSize'', JNum (Fin 14))]\<rparr>, None)))
     = Some (JNum (Fin 32))
   \<and> preferences (fst (setFontSize
       \<lparr>detectMobile = False, JSON_parse = Map.empty, JSON_stringify = (\<lambda>p. ''{}''),
        setItem_succeeds = (\<lambda>k v. True)\<rparr> (Fin 40)
       (\<lparr>preferences = obj_of [(''maxCols'', JNum (Fin 80)), (''fontSize'', JNum (Fin 14))]\<rparr>, None)))
       ''maxCols'' = Some (JNum (Fin 80))"
  using setMaxCols_setFontSize_clamp
    [of "\<lparr>detectMobile = False, JSON_parse = Map.empty, JSON_stringify = (\<lambda>p. ''{}''),
        setItem_succeeds = (\<lambda>k v. True)\<rparr>" "Fin (- 5)"
        "\<lparr>preferences = obj_of [(''maxCols'', JNum (Fin 80)), (''fontSize'', JNum (Fin 14))]\<rparr>"
        None "-5"]
    setMaxCols_setFontSize_clamp
    [of "\<lparr>detectMobile = False, JSON_parse = Map.empty, JSON_stringify = (\<lambda>p. ''{}''),
        setItem_succeeds = (\<lambda>k v. True)\<rparr>" "Fin 40"
        "\<lparr>preferences = obj_of [(''maxCols'', JNum (Fin 80)), (''fontSize'', JNum (Fin 14))]\<rparr>"
        None "40"]
  by (simp add: obj_of_def spread_def)

lemma getInstance_set:
  "instance_field w = Some a \<Longrightarrow> getInstance e w = (a, w)"
  by (simp add: getInstance_def)

lemma getInstance_field:
  "instance_field (snd (getInstance e w)) = Some (fst (getInstance e w))"
  by (simp add: getInstance_def Let_def split: option.splits)

lemma call_instance_field:
  "call a meth w = Some w' \<Longrightarrow> instance_field w' = instance_field w"
  by (auto simp: call_def split: if_splits prod.splits)

lemma calls_instance_field:
  "calls cs w = Some w' \<Longrightarrow> instance_field w' = instance_field w"
proof (induction cs arbitrary: w)
  case Nil
  then show ?case by simp
next
  case (Cons c cs)
  obtain a meth where c: "c = (a, meth)" by (cases c)
  from Cons.prems obtain w1 where 1: "call a meth w = Some w1" and 2: "calls cs w1 = Some w'"
    by (auto simp: c split: option.splits)
  from Cons.IH[OF 2] call_instance_field[OF 1] show ?case by simp
qed

lemma getInstance_wf: "wf_world w \<Longrightarrow> wf_world (snd (getInstance e w))"
  by (auto simp: wf_world_def getInstance_def Let_def split: option.splits)

text \<open>
  Claim C10. \<open>getInstance()\<close> returns the one instance every time: a call made after
  an earlier call, with any method calls on any references in between, returns the same
  reference \<open>a\<close> and changes nothing. So two callers share one preferences state: what
  one sets through its reference, the other reads through its own, and the next
  \<open>getInstance()\<close> still returns \<open>a\<close>.
\<close>

theorem getInstance_singleton:
  assumes "wf_world w"
    and "getInstance e w = (a, w1)"
    and "calls cs w1 = Some w2"
    and "getInstance e w2 = (b, w3)"
  shows "b = a \<and> w3 = w2
       \<and> (\<exists>w4. call a (setMaxCols e x) w3 = Some w4
              \<and> read b getMaxCols w4 = Some (Some (JNum (Math_max (Fin 0) x)))
              \<and> getInstance e w4 = (a, w4))"
proof -
  have f1: "instance_field w1 = Some a"
    using getInstance_field[of e w] assms(2) by simp
  have f2: "instance_field w2 = Some a"
    using calls_instance_field[OF assms(3)] f1 by simp
  have ba: "b = a" and w32: "w3 = w2"
    using getInstance_set[OF f2, of e] assms(4) by simp_all
  have wf1: "wf_world w1" using getInstance_wf[OF assms(1), of e] assms(2) by simp
  have "wf_world w2" using assms(3) wf1
  proof (induction cs arbitrary: w1)
    case Nil
    then show ?case by simp
  next
    case (Cons c cs)
    obtain a' meth where c: "c = (a', meth)" by (cases c)
    from Cons.prems(1) obtain u where 1: "call a' meth w1 = Some u" and 2: "calls cs u = Some w2"
      by (auto simp: c split: option.splits)
    from 1 Cons.prems(2) have "wf_world u"
      by (auto simp: call_def wf_world_def split: if_splits prod.splits option.splits)
    from Cons.IH[OF 2 this] show ?case .
  qed
  then have lt: "a < length (store w2)" using f2 by (simp add: wf_world_def)
  obtain this' ls' where sm: "setMaxCols e x (store w2 ! a, localStorage_of w2) = (this', ls')"
    by (cases "setMaxCols e x (store w2 ! a, localStorage_of w2)")
  have this': "this' = (store w2 ! a)\<lparr>preferences :=
      (preferences (store w2 ! a))(''maxCols'' \<mapsto> JNum (Math_max (Fin 0) x))\<rparr>"
    using sm fst_savePreferences[of e _ "localStorage_of w2"]
    by (simp add: setMaxCols_def) (metis fst_conv)
  let ?w4 = "w2\<lparr>localStorage_of := ls', store := (store w2)[a := this']\<rparr>"
  have c4: "call a (setMaxCols e x) w3 = Some ?w4"
    using lt sm by (simp add: call_def w32)
  have r4: "read b getMaxCols ?w4 = Some (Some (JNum (Math_max (Fin 0) x)))"
    using lt by (simp add: read_def ba getMaxCols_def this')
  have g4: "getInstance e ?w4 = (a, ?w4)"
    by (rule getInstance_set) (simp add: f2)
  from ba w32 c4 r4 g4 show ?thesis by blast
qed

theorem getInstance_singleton_witness:
  "wf_world \<lparr>localStorage_of = None, instance_field = None, store = []\<rparr>
   \<and> getInstance
        \<lparr>detectMobile = False, JSON_parse = Map.empty, JSON_stringify = (\<lambda>p. ''{}''),
         setItem_succeeds = (\<lambda>k v. True)\<rparr>
        \<lparr>localStorage_of = None, instance_field = None, store = []\<rparr>
      = (0, \<lparr>localStorage_of = None, instance_field = Some 0,
             store = [\<lparr>preferences = obj_of (DEFAULT_PREFERENCES
               \<lparr>detectMobile = False, JSON_parse = Map.empty, JSON_stringify = (\<lambda>p. ''{}''),
                setItem_succeeds = (\<lambda>k v. True)\<rparr>)\<rparr>]\<rparr>)
   \<and> calls [(0, setFontSize
          \<lparr>detectMobile = False, JSON_parse = Map.empty, JSON_stringify = (\<lambda>p. ''{}''),
           setItem_succeeds = (\<lambda>k v. True)\<rparr> (Fin 20))]
        \<lparr>localStorage_of = None, instance_field = Some 0,
             store = [\<lparr>preferences = obj_of (DEFAULT_PREFERENCES
               \<lparr>detectMobile = False, JSON_parse = Map.empty, JSON_stringify = (\<lambda>p. ''{}''),
                setItem_succeeds = (\<lambda>k v. True)\<rparr>)\<rparr>]\<rparr>
      = Some \<lparr>localStorage_of = None, instance_field = Some 0,
             store = [\<lparr>preferences = (obj_of (DEFAULT_PREFERENCES
               \<lparr>detectMobile = False, JSON_parse = Map.empty, JSON_stringify = (\<lambda>p. ''{}''),
                setItem_succeeds = (\<lambda>k v. True)\<rparr>))(''fontSize'' \<mapsto> JNum (Fin 20))\<rparr>]\<rparr>
   \<and> (\<exists>w4. call 0 (setMaxCols
          \<lparr>detectMobile = False, JSON_parse = Map.empty, JSON_stringify = (\<lambda>p. ''{}''),
           setItem_succeeds = (\<lambda>k v. True)\<rparr> (Fin 100))
          \<lparr>localStorage_of = None, instance_field = Some 0,
             store = [\<lparr>preferences = (obj_of (DEFAULT_PREFERENCES
               \<lparr>detectMobile = False, JSON_parse = Map.empty, JSON_stringify = (\<lambda>p. ''{}''),
                setItem_succeeds = (\<lambda>k v. True)\<rparr>))(''fontSize'' \<mapsto> JNum (Fin 20))\<rparr>]\<rparr> = Some w4
        \<and> read 0 getMaxCols w4 = Some (Some (JNum (Fin 100)))
        \<and> getInstance
          \<lparr>detectMobile = False, JSON_parse = Map.empty, JSON_stringify = (\<lambda>p. ''{}''),
           setItem_succeeds = (\<lambda>k v. True)\<rparr> w4 = (0, w4))"
proof -
  let ?e = "\<lparr>detectMobile = False, JSON_parse = Map.empty, JSON_stringify = (\<lambda>p. ''{}''),
         setItem_succeeds = (\<lambda>k v. True)\<rparr>"
  let ?w = "\<lparr>localStorage_of = None, instance_field = None, store = []\<rparr>"
  let ?w1 = "\<lparr>localStorage_of = None, instance_field = Some 0,
             store = [\<lparr>preferences = obj_of (DEFAULT_PREFERENCES ?e)\<rparr>]\<rparr>"
  let ?w2 = "\<lparr>localStorage_of = None, instance_field = Some 0,
             store = [\<lparr>preferences = (obj_of (DEFAULT_PREFERENCES ?e))(''fontSize'' \<mapsto> JNum (Fin 20))\<rparr>]\<rparr>"
  have h1: "wf_world ?w" by (simp add: wf_world_def)
  have h2: "getInstance ?e ?w = (0, ?w1)"
    by (simp add: getInstance_def loadPreferences_def)
  have h3: "calls [(0, setFontSize ?e (Fin 20))] ?w1 = Some ?w2"
    by (simp add: call_def setFontSize_def savePreferences_def)
  have h4: "getInstance ?e ?w2 = (0, ?w2)" by (simp add: getInstance_def)
  from getInstance_singleton[OF h1 h2 h3 h4, of "Fin 100"] h1 h2 h3 show ?thesis by auto
qed

section \<open>Properties of loading stored preferences\<close>

lemma spread_Cons: "spread t ((k, v) # kvs) = spread (t(k \<mapsto> v)) kvs"
  by (simp add: spread_def)

lemma spread_lookup:
  "distinct (map fst kvs) \<Longrightarrow>
     spread t kvs k = (case map_of kvs k of Some v \<Rightarrow> Some v | None \<Rightarrow> t k)"
proof (induction kvs arbitrary: t)
  case Nil
  then show ?case by (simp add: spread_def)
next
  case (Cons kv kvs)
  obtain k' v' where kv: "kv = (k', v')" by (cases kv)
  from Cons.prems have d: "distinct (map fst kvs)" and n: "k' \<notin> fst ` set kvs"
    by (simp_all add: kv)
  from n have m: "map_of kvs k' = None" by (simp add: map_of_eq_None_iff)
  have "spread t (kv # kvs) k = spread (t(k' \<mapsto> v')) kvs k"
    by (simp add: kv spread_Cons)
  also have "\<dots> = (case map_of kvs k of Some v \<Rightarrow> Some v | None \<Rightarrow> (t(k' \<mapsto> v')) k)"
    by (rule Cons.IH[OF d])
  also have "\<dots> = (case map_of (kv # kvs) k of Some v \<Rightarrow> Some v | None \<Rightarrow> t k)"
    using m by (auto simp: kv split: option.splits)
  finally show ?case .
qed

lemma obj_of_lookup:
  "distinct (map fst kvs) \<Longrightarrow> obj_of kvs k = map_of kvs k"
  by (simp add: obj_of_def spread_lookup split: option.splits)

lemma DEFAULT_PREFERENCES_distinct: "distinct (map fst (DEFAULT_PREFERENCES e))"
  by (simp add: DEFAULT_PREFERENCES_def)

lemma DEFAULT_APP_PREFERENCES_distinct: "distinct (map fst DEFAULT_APP_PREFERENCES)"
  by (simp add: DEFAULT_APP_PREFERENCES_def)

text \<open>
  Claim C3, as amended. When the stored text of the terminal preferences or of the app
  preferences parses to an object, the loaded preferences are the defaults overlaid with
  the members of that object: a field that the stored object lacks takes its default
  value, and every field of the stored object is carried into the result with its stored
  value, whether the configuration structure knows the field or not.
\<close>

theorem stored_preferences_merge:
  assumes "JSON_parse e saved = Some (JObj kvs)"
    and "saved \<noteq> []"
    and "distinct (map fst kvs)"
  shows "loadPreferences e (Some (items(STORAGE_KEY_TERMINAL_PREFS \<mapsto> saved))) k =
           (case map_of kvs k of
              Some v \<Rightarrow> Some v
            | None \<Rightarrow> map_of (DEFAULT_PREFERENCES e) k)
       \<and> loadAppPreferences e (Some (items(STORAGE_KEY \<mapsto> saved))) appPreferences k =
           (case map_of kvs k of
              Some v \<Rightarrow> Some v
            | None \<Rightarrow> map_of DEFAULT_APP_PREFERENCES k)"
  using assms
  by (simp add: loadPreferences_def loadAppPreferences_def spread_lookup
      obj_of_lookup[OF DEFAULT_PREFERENCES_distinct]
      obj_of_lookup[OF DEFAULT_APP_PREFERENCES_distinct] split: option.splits)

theorem stored_preferences_merge_witness:
  "JSON_parse
     \<lparr>detectMobile = False,
      JSON_parse = [''{\"fontSize\":20,\"bogus\":true}'' \<mapsto>
                      JObj [(''fontSize'', JNum (Fin 20)), (''bogus'', JBool True)]],
      JSON_stringify = (\<lambda>p. ''{}''), setItem_succeeds = (\<lambda>k v. True)\<rparr>
     ''{\"fontSize\":20,\"bogus\":true}''
     = Some (JObj [(''fontSize'', JNum (Fin 20)), (''bogus'', JBool True)])
   \<and> ''{\"fontSize\":20,\"bogus\":true}'' \<noteq> []
   \<and> distinct (map fst [(''fontSize'', JNum (Fin 20)), (''bogus'', JBool True)])
   \<and> loadPreferences
     \<lparr>detectMobile = False,
      JSON_parse = [''{\"fontSize\":20,\"bogus\":true}'' \<mapsto>
                      JObj [(''fontSize'', JNum (Fin 20)), (''bogus'', JBool True)]],
      JSON_stringify = (\<lambda>p. ''{}''), setItem_succeeds = (\<lambda>k v. True)\<rparr>
     (Some (Map.empty(STORAGE_KEY_TERMINAL_PREFS \<mapsto> ''{\"fontSize\":20,\"bogus\":true}'')))
     ''maxCols'' = Some (JNum (Fin 0))
   \<and> loadAppPreferences
     \<lparr>detectMobile = False,
      JSON_parse = [''{\"fontSize\":20,\"bogus\":true}'' \<mapsto>
                      JObj [(''fontSize'', JNum (Fin 20)), (''bogus'', JBool True)]],
      JSON_stringify = (\<lambda>p. ''{}''), setItem_succeeds = (\<lambda>k v. True)\<rparr>
     (Some (Map.empty(STORAGE_KEY \<mapsto> ''{\"fontSize\":20,\"bogus\":true}'')))
     Map.empty ''useBinaryMode'' = Some (JBool False)"
proof -
  let ?e = "\<lparr>detectMobile = False,
      JSON_parse = [''{\"fontSize\":20,\"bogus\":true}'' \<mapsto>
                      JObj [(''fontSize'', JNum (Fin 20)), (''bogus'', JBool True)]],
      JSON_stringify = (\<lambda>p. ''{}''), setItem_succeeds = (\<lambda>k v. True)\<rparr>"
  have h1: "JSON_parse ?e ''{\"fontSize\":20,\"bogus\":true}''
     = Some (JObj [(''fontSize'', JNum (Fin 20)), (''bogus'', JBool True)])" by simp
  have h2: "''{\"fontSize\":20,\"bogus\":true}'' \<noteq> []" by simp
  have h3: "distinct (map fst [(''fontSize'', JNum (Fin 20)), (''bogus'', JBool True)])" by simp
  from stored_preferences_merge[OF h1 h2 h3, where k = "''maxCols''" and items = "Map.empty"
         and appPreferences = "Map.empty"]
       stored_preferences_merge[OF h1 h2 h3, where k = "''useBinaryMode''" and items = "Map.empty"
         and appPreferences = "Map.empty"]
       h1 h2 h3
  show ?thesis
    by (simp add: DEFAULT_PREFERENCES_def DEFAULT_APP_PREFERENCES_def)
qed

text \<open>
  Claim C3 as stated fails: a stored object with a field \<open>bogus\<close>, which neither
  structure knows, gives preferences that hold \<open>bogus\<close>.
\<close>

theorem stored_preferences_unknown_field_counterexample:
  "loadPreferences
     \<lparr>detectMobile = False,
      JSON_parse = [''{\"bogus\":true}'' \<mapsto> JObj [(''bogus'', JBool True)]],
      JSON_stringify = (\<lambda>p. ''{}''), setItem_succeeds = (\<lambda>k v. True)\<rparr>
     (Some [STORAGE_KEY_TERMINAL_PREFS \<mapsto> ''{\"bogus\":true}''])
     ''bogus'' = Some (JBool True)
   \<and> ''bogus'' \<notin> set (map fst (DEFAULT_PREFERENCES
     \<lparr>detectMobile = False,
      JSON_parse = [''{\"bogus\":true}'' \<mapsto> JObj [(''bogus'', JBool True)]],
      JSON_stringify = (\<lambda>p. ''{}''), setItem_succeeds = (\<lambda>k v. True)\<rparr>))
   \<and> loadAppPreferences
     \<lparr>detectMobile = False,
      JSON_parse = [''{\"bogus\":true}'' \<mapsto> JObj [(''bogus'', JBool True)]],
      JSON_stringify = (\<lambda>p. ''{}''), setItem_succeeds = (\<lambda>k v. True)\<rparr>
     (Some [STORAGE_KEY \<mapsto> ''{\"bogus\":true}''])
     (obj_of DEFAULT_APP_PREFERENCES)
     ''bogus'' = Some (JBool True)
   \<and> ''bogus'' \<notin> set (map fst DEFAULT_APP_PREFERENCES)"
  by (simp add: loadPreferences_def loadAppPreferences_def spread_def obj_of_def
      DEFAULT_PREFERENCES_def DEFAULT_APP_PREFERENCES_def)

section \<open>Properties of the session service\<close>

text \<open>
  Claim C6. \<open>SessionService.createSession\<close> returns what the create-session call of the
  client returns: when that call throws, the same error is thrown on to the caller, after
  one line about it has been logged; when it returns a session id, that id is returned
  unchanged and nothing is logged. The state of the server is as the call left it.
\<close>

theorem createSession_reports_failure:
  "fst (createSession apiClient describe d (s, logger)) = fst (api_createSession apiClient d s)
   \<and> fst (snd (createSession apiClient describe d (s, logger))) = snd (api_createSession apiClient d s)
   \<and> snd (snd (createSession apiClient describe d (s, logger))) =
       (case fst (api_createSession apiClient d s) of
          Inl error \<Rightarrow> logger @ [''Failed to create session: '' @ describe error]
        | Inr sessionId \<Rightarrow> logger)"
  by (cases "api_createSession apiClient d s")
     (auto simp: createSession_def split: sum.splits)

section \<open>Properties of the notification preferences\<close>

lemma handleToggleNotifications_frame:
  "k \<noteq> ''enabled'' \<Longrightarrow>
     notificationPreferences (snd (handleToggleNotifications p this)) k =
       notificationPreferences this k"
  by (auto simp: handleToggleNotifications_def Let_def split: option.splits bool.splits)

lemma handleNotificationPreferenceChange_frame:
  "k \<noteq> key \<Longrightarrow>
     notificationPreferences (handleNotificationPreferenceChange key v this) k =
       notificationPreferences this k"
  by (simp add: handleNotificationPreferenceChange_def Let_def)

lemma click_frame:
  "k \<noteq> toggle_key t \<Longrightarrow> on_click t = ToggleNotifications \<longrightarrow> toggle_key t = ''enabled'' \<Longrightarrow>
     notificationPreferences (click p t this) k = notificationPreferences this k"
  by (cases "on_click t")
     (auto simp: click_def handleToggleNotifications_frame handleNotificationPreferenceChange_frame)

lemma rendered_handlers:
  "t \<in> set (renderNotificationSettings supported this) \<Longrightarrow>
     (on_click t = ToggleNotifications \<longrightarrow> toggle_key t = ''enabled'')
     \<and> (toggle_key t \<noteq> ''enabled'' \<longrightarrow> on_click t = NotificationPreferenceChange \<and> \<not> disabled t)"
  by (cases supported; cases "isNotificationsEnabled this")
     (auto simp: renderNotificationSettings_def renderNotificationToggle_def main_toggle_def)

text \<open>
  Claim C7, as amended. Where push notifications are supported, the notification
  settings show the main switch of the key \<open>enabled\<close> and, while the notifications
  are enabled, after it exactly the switches \<open>sessionExit\<close>, \<open>sessionStart\<close>,
  \<open>commandError\<close>, \<open>commandCompletion\<close>, \<open>bell\<close> and \<open>claudeTurn\<close>, and the two
  flags \<open>soundEnabled\<close> and \<open>vibrationEnabled\<close>; where they are not supported,
  no switch. Changing one preference key sets that key to the given value and leaves
  every other key as it was. So does a click on any switch shown: a click on the main
  switch changes no key but \<open>enabled\<close>, whatever the push service answers, and a
  click on another switch sets its key to the negation of its current value.
\<close>

theorem notification_toggles:
  "renderNotificationSettings False this = []
   \<and> map toggle_key (renderNotificationSettings True this) =
       (if isNotificationsEnabled this
        then [''enabled'', ''sessionExit'', ''sessionStart'', ''commandError'',
              ''commandCompletion'', ''bell'', ''claudeTurn'', ''soundEnabled'',
              ''vibrationEnabled'']
        else [''enabled''])
   \<and> notificationPreferences (handleNotificationPreferenceChange key v this) key = Some v
   \<and> (\<forall>k. k \<noteq> key \<longrightarrow>
         notificationPreferences (handleNotificationPreferenceChange key v this) k =
           notificationPreferences this k)
   \<and> (\<forall>k. k \<noteq> ''enabled'' \<longrightarrow>
         notificationPreferences (snd (handleToggleNotifications p this)) k =
           notificationPreferences this k)
   \<and> (\<forall>t\<in>set (renderNotificationSettings supported this).
         (\<forall>k. k \<noteq> toggle_key t \<longrightarrow>
            notificationPreferences (click p t this) k = notificationPreferences this k)
         \<and> (toggle_key t \<noteq> ''enabled'' \<longrightarrow>
              notificationPreferences (click p t this) (toggle_key t) =
                Some (\<not> truthy (notificationPreferences this (toggle_key t)))))"
proof -
  have a: "renderNotificationSettings False this = []"
    by (simp add: renderNotificationSettings_def)
  have b: "map toggle_key (renderNotificationSettings True this) =
       (if isNotificationsEnabled this
        then [''enabled'', ''sessionExit'', ''sessionStart'', ''commandError'',
              ''commandCompletion'', ''bell'', ''claudeTurn'', ''soundEnabled'',
              ''vibrationEnabled'']
        else [''enabled''])"
    by (simp add: renderNotificationSettings_def renderNotificationToggle_def main_toggle_def)
  have c: "notificationPreferences (handleNotificationPreferenceChange key v this) key = Some v"
    by (simp add: handleNotificationPreferenceChange_def Let_def)
  have d: "\<forall>k. k \<noteq> key \<longrightarrow>
         notificationPreferences (handleNotificationPreferenceChange key v this) k =
           notificationPreferences this k"
    by (simp add: handleNotificationPreferenceChange_frame)
  have e: "\<forall>k. k \<noteq> ''enabled'' \<longrightarrow>
         notificationPreferences (snd (handleToggleNotifications p this)) k =
           notificationPreferences this k"
    by (simp add: handleToggleNotifications_frame)
  have f: "\<forall>t\<in>set (renderNotificationSettings supported this).
         (\<forall>k. k \<noteq> toggle_key t \<longrightarrow>
            notificationPreferences (click p t this) k = notificationPreferences this k)
         \<and> (toggle_key t \<noteq> ''enabled'' \<longrightarrow>
              notificationPreferences (click p t this) (toggle_key t) =
                Some (\<not> truthy (notificationPreferences this (toggle_key t))))"
  proof
    fix t assume t: "t \<in> set (renderNotificationSettings supported this)"
    note h = rendered_handlers[OF t]
    have 1: "\<forall>k. k \<noteq> toggle_key t \<longrightarrow>
            notificationPreferences (click p t this) k = notificationPreferences this k"
      using h click_frame[of _ t p this] by blast
    have 2: "toggle_key t \<noteq> ''enabled'' \<longrightarrow>
              notificationPreferences (click p t this) (toggle_key t) =
                Some (\<not> truthy (notificationPreferences this (toggle_key t)))"
      using h by (auto simp: click_def handleNotificationPreferenceChange_def Let_def)
    from 1 2 show "(\<forall>k. k \<noteq> toggle_key t \<longrightarrow>
            notificationPreferences (click p t this) k = notificationPreferences this k)
         \<and> (toggle_key t \<noteq> ''enabled'' \<longrightarrow>
              notificationPreferences (click p t this) (toggle_key t) =
                Some (\<not> truthy (notificationPreferences this (toggle_key t))))" by (rule conjI)
  qed
  from a b c d e f show ?thesis by (intro conjI)
qed

theorem notification_toggles_witness:
  "renderNotificationToggle
       \<lparr>notificationPreferences = [''enabled'' \<mapsto> True, ''bell'' \<mapsto> False], isLoading = False,
        savePreferences_calls = [], dispatched = []\<rparr> ''bell'' ''System Alerts''
     \<in> set (renderNotificationSettings True
       \<lparr>notificationPreferences = [''enabled'' \<mapsto> True, ''bell'' \<mapsto> False], isLoading = False,
        savePreferences_calls = [], dispatched = []\<rparr>)
   \<and> main_toggle
       \<lparr>notificationPreferences = [''enabled'' \<mapsto> True, ''bell'' \<mapsto> False], isLoading = False,
        savePreferences_calls = [], dispatched = []\<rparr>
     \<in> set (renderNotificationSettings True
       \<lparr>notificationPreferences = [''enabled'' \<mapsto> True, ''bell'' \<mapsto> False], isLoading = False,
        savePreferences_calls = [], dispatched = []\<rparr>)
   \<and> ''enabled'' \<noteq> ''bell''
   \<and> notificationPreferences (handleNotificationPreferenceChange ''bell'' True
       \<lparr>notificationPreferences = [''enabled'' \<mapsto> True, ''bell'' \<mapsto> False], isLoading = False,
        savePreferences_calls = [], dispatched = []\<rparr>) ''bell'' = Some True
   \<and> notificationPreferences (handleNotificationPreferenceChange ''bell'' True
       \<lparr>notificationPreferences = [''enabled'' \<mapsto> True, ''bell'' \<mapsto> False], isLoading = False,
        savePreferences_calls = [], dispatched = []\<rparr>) ''enabled'' = Some True
   \<and> notificationPreferences (click
        \<lparr>unsubscribe_throws = False, requestPermission = Some ''granted'', subscribe = Some True,
         savePreferences_throws = False\<rparr>
        (renderNotificationToggle
          \<lparr>notificationPreferences = [''enabled'' \<mapsto> True, ''bell'' \<mapsto> False], isLoading = False,
           savePreferences_calls = [], dispatched = []\<rparr> ''bell'' ''System Alerts'')
       \<lparr>notificationPreferences = [''enabled'' \<mapsto> True, ''bell'' \<mapsto> False], isLoading = False,
        savePreferences_calls = [], dispatched = []\<rparr>) ''bell'' = Some True
   \<and> notificationPreferences (click
        \<lparr>unsubscribe_throws = False, requestPermission = Some ''granted'', subscribe = Some True,
         savePreferences_throws = False\<rparr>
        (renderNotificationToggle
          \<lparr>notificationPreferences = [''enabled'' \<mapsto> True, ''bell'' \<mapsto> False], isLoading = False,
           savePreferences_calls = [], dispatched = []\<rparr> ''bell'' ''System Alerts'')
       \<lparr>notificationPreferences = [''enabled'' \<mapsto> True, ''bell'' \<mapsto> False], isLoading = False,
        savePreferences_calls = [], dispatched = []\<rparr>) ''enabled'' = Some True
   \<and> notificationPreferences (click
        \<lparr>unsubscribe_throws = False, requestPermission = Some ''granted'', subscribe = Some True,
         savePreferences_throws = False\<rparr>
        (main_toggle
          \<lparr>notificationPreferences = [''enabled'' \<mapsto> True, ''bell'' \<mapsto> False], isLoading = False,
           savePreferences_calls = [], dispatched = []\<rparr>)
       \<lparr>notificationPreferences = [''enabled'' \<mapsto> True, ''bell'' \<mapsto> False], isLoading = False,
        savePreferences_calls = [], dispatched = []\<rparr>) ''bell'' = Some False
   \<and> notificationPreferences (snd (handleToggleNotifications
        \<lparr>unsubscribe_throws = False, requestPermission = Some ''granted'', subscribe = Some True,
         savePreferences_throws = False\<rparr>
       \<lparr>notificationPreferences = [''enabled'' \<mapsto> True, ''bell'' \<mapsto> False], isLoading = False,
        savePreferences_calls = [], dispatched = []\<rparr>)) ''bell'' = Some False"
proof -
  let ?s = "\<lparr>notificationPreferences = [''enabled'' \<mapsto> True, ''bell'' \<mapsto> False], isLoading = False,
        savePreferences_calls = [], dispatched = []\<rparr>"
  let ?p = "\<lparr>unsubscribe_throws = False, requestPermission = Some ''granted'', subscribe = Some True,
         savePreferences_throws = False\<rparr>"
  let ?t = "renderNotificationToggle ?s ''bell'' ''System Alerts''"
  have en: "isNotificationsEnabled ?s" by (simp add: isNotificationsEnabled_def truthy_def)
  have h1: "?t \<in> set (renderNotificationSettings True ?s)"
    using en by (simp add: renderNotificationSettings_def)
  have h2: "main_toggle ?s \<in> set (renderNotificationSettings True ?s)"
    by (simp add: renderNotificationSettings_def)
  have h3: "''enabled'' \<noteq> ''bell''" "''bell'' \<noteq> ''enabled''" by simp_all
  have k1: "toggle_key ?t = ''bell''" by (simp add: renderNotificationToggle_def)
  have k2: "toggle_key (main_toggle ?s) = ''enabled''" by (simp add: main_toggle_def)
  from notification_toggles[of ?s "''bell''" True ?p True] h1 h2 h3 k1 k2
  show ?thesis
    by (auto simp: truthy_def)
qed

text \<open>
  Claim C7 as stated, with exactly the six toggles and the two flags, fails: the main
  switch of the key \<open>enabled\<close> is shown as well, and it is the only switch while the
  notifications are not enabled.
\<close>

theorem notification_main_switch_counterexample:
  "''enabled'' \<in> set (map toggle_key (renderNotificationSettings True
       \<lparr>notificationPreferences = [''enabled'' \<mapsto> True], isLoading = False,
        savePreferences_calls = [], dispatched = []\<rparr>))
   \<and> ''enabled'' \<notin> {''sessionStart'', ''sessionExit'', ''commandError'', ''commandCompletion'',
        ''bell'', ''claudeTurn'', ''soundEnabled'', ''vibrationEnabled''}
   \<and> map toggle_key (renderNotificationSettings True
       \<lparr>notificationPreferences = [''enabled'' \<mapsto> False], isLoading = False,
        savePreferences_calls = [], dispatched = []\<rparr>) = [''enabled'']"
  by (simp add: renderNotificationSettings_def renderNotificationToggle_def main_toggle_def
      isNotificationsEnabled_def truthy_def)


section \<open>Properties of the session registry\<close>

text \<open>
  Claim C4. For every session of the registry whose status is not Exited, \<open>cleanup(id)\<close>
  fails with \<open>SessionStillRunning\<close> and leaves the registry as it was, directly and
  through \<open>SessionService.cleanupSession\<close>; the session is still registered under its
  id.
\<close>

theorem cleanup_still_running:
  assumes "map_of reg sid = Some s"
    and "status s \<noteq> Exited"
  shows "cleanup sid reg = (Inl SessionStillRunning, reg)
       \<and> cleanupSession (served_by_registry apiClient) sid reg = (Inl SessionStillRunning, reg)
       \<and> map_of (snd (cleanupSession (served_by_registry apiClient) sid reg)) sid = Some s"
  using assms by (simp add: cleanup_def cleanupSession_def served_by_registry_def)

theorem cleanup_still_running_witness:
  "map_of [(''s1'', \<lparr>status = Running, exitCode = None\<rparr>),
           (''s2'', \<lparr>status = Exited, exitCode = Some 0\<rparr>)] ''s1''
     = Some \<lparr>status = Running, exitCode = None\<rparr>
   \<and> status \<lparr>status = Running, exitCode = None\<rparr> \<noteq> Exited
   \<and> cleanup ''s1'' [(''s1'', \<lparr>status = Running, exitCode = None\<rparr>),
           (''s2'', \<lparr>status = Exited, exitCode = Some 0\<rparr>)]
     = (Inl SessionStillRunning, [(''s1'', \<lparr>status = Running, exitCode = None\<rparr>),
           (''s2'', \<lparr>status = Exited, exitCode = Some 0\<rparr>)])
   \<and> cleanupSession (served_by_registry
         \<lparr>api_createSession = (\<lambda>(d::unit) reg. (Inl SpawnError, reg)),
          api_killSession = (\<lambda>sid reg. (Inl NotFound, reg)),
          api_cleanupSession = (\<lambda>sid reg. (Inl NotFound, reg)),
          api_cleanupAllExitedSessions = (\<lambda>reg. (Inr [], reg))\<rparr>)
        ''s1'' [(''s1'', \<lparr>status = Running, exitCode = None\<rparr>),
           (''s2'', \<lparr>status = Exited, exitCode = Some 0\<rparr>)]
     = (Inl SessionStillRunning, [(''s1'', \<lparr>status = Running, exitCode = None\<rparr>),
           (''s2'', \<lparr>status = Exited, exitCode = Some 0\<rparr>)])"
proof -
  let ?reg = "[(''s1'', \<lparr>status = Running, exitCode = None\<rparr>),
           (''s2'', \<lparr>status = Exited, exitCode = Some 0\<rparr>)]"
  have h1: "map_of ?reg ''s1'' = Some \<lparr>status = Running, exitCode = None\<rparr>" by simp
  have h2: "status \<lparr>status = Running, exitCode = None\<rparr> \<noteq> Exited" by simp
  from cleanup_still_running[OF h1 h2] h1 h2 show ?thesis by blast
qed

lemma cleanup_cases:
  "(\<exists>err. cleanup sid reg = (Inl err, reg))
   \<or> (cleanup sid reg = (Inr (), filter (\<lambda>(k, _). k \<noteq> sid) reg) \<and> sid \<in> fst ` set reg)"
proof (cases "map_of reg sid")
  case None
  then show ?thesis by (simp add: cleanup_def)
next
  case (Some s)
  then have "(sid, s) \<in> set reg" by (rule map_of_SomeD)
  then have "sid \<in> fst ` set reg" by force
  then show ?thesis using Some by (simp add: cleanup_def)
qed

lemma cleanup_step_fail:
  "cleanup sid reg = (Inl err, reg') \<Longrightarrow>
     cleanup_step (removed, failures, reg) sid = (removed, failures @ [(sid, err)], reg')"
  by (simp add: cleanup_step_def)

lemma cleanup_step_ok:
  "cleanup sid reg = (Inr u, reg') \<Longrightarrow>
     cleanup_step (removed, failures, reg) sid = (removed @ [sid], failures, reg')"
  by (simp add: cleanup_step_def)

lemma foldl_cleanup_step:
  "\<exists>removed' failures'.
     foldl cleanup_step (removed, failures, reg) sids =
       (removed @ removed', failures', filter (\<lambda>(k, _). k \<notin> set removed') reg)
     \<and> set removed' \<subseteq> set sids \<inter> fst ` set reg"
proof (induction sids arbitrary: removed failures reg)
  case Nil
  show ?case by (rule exI[of _ "[]"]) simp
next
  case (Cons sid sids)
  consider (fail) err where "cleanup sid reg = (Inl err, reg)"
    | (ok) "cleanup sid reg = (Inr (), filter (\<lambda>(k, _). k \<noteq> sid) reg)" "sid \<in> fst ` set reg"
    using cleanup_cases[of sid reg] by blast
  then show ?case
  proof cases
    case fail
    from Cons.IH[of removed "failures @ [(sid, err)]" reg]
    obtain r f where "foldl cleanup_step (removed, failures @ [(sid, err)], reg) sids =
       (removed @ r, f, filter (\<lambda>(k, _). k \<notin> set r) reg)" "set r \<subseteq> set sids \<inter> fst ` set reg"
      by blast
    then have "foldl cleanup_step (removed, failures, reg) (sid # sids) =
                 (removed @ r, f, filter (\<lambda>(k, _). k \<notin> set r) reg)"
      and "set r \<subseteq> set (sid # sids) \<inter> fst ` set reg"
      by (auto simp: cleanup_step_fail[OF fail])
    then show ?thesis by blast
  next
    case ok
    let ?reg = "filter (\<lambda>(k, _). k \<noteq> sid) reg"
    from Cons.IH[of "removed @ [sid]" failures ?reg]
    obtain r f where 1: "foldl cleanup_step (removed @ [sid], failures, ?reg) sids =
       ((removed @ [sid]) @ r, f, filter (\<lambda>(k, _). k \<notin> set r) ?reg)"
      and 2: "set r \<subseteq> set sids \<inter> fst ` set ?reg"
      by blast
    have 3: "filter (\<lambda>(k, _). k \<notin> set r) ?reg = filter (\<lambda>(k, _). k \<notin> set (sid # r)) reg"
      by (induction reg) auto
    from 2 have 4: "set (sid # r) \<subseteq> set (sid # sids) \<inter> fst ` set reg"
      using ok(2) by auto
    have 5: "foldl cleanup_step (removed, failures, reg) (sid # sids) =
               (removed @ (sid # r), f, filter (\<lambda>(k, _). k \<notin> set (sid # r)) reg)"
      using 1 3 by (simp add: cleanup_step_ok[OF ok(1)])
    from 5 4 show ?thesis by blast
  qed
qed

text \<open>
  Claim C5. \<open>cleanupAllExitedSessions\<close> returns exactly the ids that the call removed:
  the registry after the call is the registry before it without the sessions of the
  returned ids, and the returned ids are the ids registered before and no longer
  registered after. Each of them was the id of an Exited session.
\<close>

theorem cleanupAllExited_returns_removed:
  "\<exists>removed reg'.
     cleanupAllExitedSessions (served_by_registry apiClient) reg = (Inr removed, reg')
     \<and> reg' = filter (\<lambda>(k, s). k \<notin> set removed) reg
     \<and> set removed = fst ` set reg - fst ` set reg'
     \<and> set removed \<subseteq> set (map fst (filter (\<lambda>(k, s). status s = Exited) reg))"
proof -
  from foldl_cleanup_step[of "[]" "[]" reg "map fst (filter (\<lambda>(k, s). status s = Exited) reg)"]
  obtain r f where 1: "cleanupAllExited reg = (r, f, filter (\<lambda>(k, _). k \<notin> set r) reg)"
    and 2: "set r \<subseteq> fst ` set reg"
    and 4: "set r \<subseteq> set (map fst (filter (\<lambda>(k, s). status s = Exited) reg))"
    by (auto simp: cleanupAllExited_def)
  have 3: "set r = fst ` set reg - fst ` set (filter (\<lambda>(k, _). k \<notin> set r) reg)"
    using 2 by force
  show ?thesis
    by (intro exI[of _ r] exI[of _ "filter (\<lambda>(k, _). k \<notin> set r) reg"])
       (use 3 4 in \<open>simp add: cleanupAllExitedSessions_def served_by_registry_def 1\<close>)
qed

end
